theory Spec2Isabelle
  imports
    Complex_Main
    "HOL-Library.AList"
    "HOL-Library.Multiset"
    "HOL-Library.Char_ord"
    "HOL-Library.List_Lexorder"
begin

section \<open>Values of the JavaScript runtime\<close>

subsection \<open>Numbers\<close>

text \<open>
  A JavaScript number is an IEEE 754 double. A finite double is given here by its value,
  a rational \<open>m * 2 ^ e\<close> with \<open>\<bar>m\<bar> < 2 ^ 53\<close> and \<open>- 1074 \<le> e \<le> 971\<close>. The two zeros
  are one value: \<^verbatim>\<open>===\<close> does not tell them apart, both are falsy, and
  \<^verbatim>\<open>JSON.stringify\<close> writes both as \<^verbatim>\<open>0\<close>.
\<close>

definition is_double :: "rat \<Rightarrow> bool" where
  "is_double q = (\<exists>m e. \<bar>m\<bar> < 2 ^ 53 \<and> - 1074 \<le> e \<and> e \<le> 971 \<and> q = of_int m * 2 powi e)"

typedef double = "{q. is_double q}"
  morphisms value_of Double
proof
  have "is_double 0"
    unfolding is_double_def by (rule exI [of _ 0], rule exI [of _ 0]) simp
  then show "0 \<in> {q. is_double q}"
    by simp
qed

setup_lifting type_definition_double

instantiation double :: zero
begin

lift_definition zero_double :: double is 0
  unfolding is_double_def by (rule exI [of _ 0], rule exI [of _ 0]) simp

instance ..

end

text \<open>
  The double whose value is the integer \<open>n\<close>, for an integer that is the value of a
  double, as every integer below \<open>2 ^ 53\<close> in absolute value is (it serves to write the
  numbers of the examples).
\<close>

lift_definition double_of_int :: "int \<Rightarrow> double" is
  "\<lambda>n. if is_double (of_int n) then of_int n else 0"
proof -
  fix n :: int
  have "is_double 0"
    unfolding is_double_def by (rule exI [of _ 0], rule exI [of _ 0]) simp
  then show "is_double (if is_double (of_int n) then of_int n else 0)"
    by simp
qed

text \<open>
  The numbers that \<^verbatim>\<open>JSON.parse\<close> returns: the double nearest to the numeral of the
  text, which is infinite for a numeral beyond the range of the doubles (\<^verbatim>\<open>1e999\<close> is
  read as \<^verbatim>\<open>Infinity\<close>, \<^verbatim>\<open>-1e999\<close> as \<^verbatim>\<open>-Infinity\<close>). No text is read as
  \<^verbatim>\<open>NaN\<close>.
\<close>

datatype number = Finite double | PosInfinity | NegInfinity

instantiation number :: zero
begin

definition zero_number :: number where
  "zero_number = Finite 0"

instance ..

end

subsection \<open>JSON values\<close>

text \<open>
  The storage module keeps every collection as the result of \<^verbatim>\<open>JSON.parse\<close>, so the
  values it manipulates are JSON values. An object is the list of its own properties in
  insertion order; the operations below read objects by property name only. The type
  \<open>'n\<close> is the type of the numbers.

  \<^verbatim>\<open>JSON.stringify\<close> writes a finite number with digits that \<^verbatim>\<open>JSON.parse\<close> reads
  back as the same double, and writes an infinite number as \<^verbatim>\<open>null\<close>. So the values
  that a string of the module's own making is read back as are those with finite numbers,
  the type \<open>json\<close>: the store is written by this module only, and the arguments of its
  operations (a task, the fields of an update, a category, a setting) are taken to be
  such values. A document handed to \<^verbatim>\<open>importData\<close> comes from elsewhere: its value
  after \<^verbatim>\<open>JSON.parse\<close> is a \<open>parsed\<close>, where a number can be infinite.
\<close>

datatype 'n js =
    JNull
  | JBool bool
  | JNum 'n
  | JStr string
  | JArr "'n js list"
  | JObj "(string \<times> 'n js) list"

type_synonym json = "double js"

type_synonym parsed = "number js"

text \<open>
  A string, as \<^verbatim>\<open>JSON.parse\<close> sees it: \<open>Stringified v\<close> is a string that
  \<^verbatim>\<open>JSON.parse\<close> maps to the value \<open>v\<close> (strings are identified up to layout, and a
  numeral stands for the double it is read as), \<open>Unparsable s\<close> is a string \<open>s\<close> that
  \<^verbatim>\<open>JSON.parse\<close> rejects.
\<close>

datatype 'n slot_text = Stringified "'n js" | Unparsable string

type_synonym stored_text = "double slot_text"

type_synonym document = "number slot_text"

datatype js_error =
    SecurityError
  | QuotaExceededError
  | SyntaxError
  | TypeError
  | InvalidDataFormat

text \<open>\<^verbatim>\<open>JSON.stringify\<close> on a value whose numbers are finite.\<close>

definition JSON_stringify :: "json \<Rightarrow> stored_text" where
  "JSON_stringify v = Stringified v"

text \<open>
  What is read back from \<^verbatim>\<open>JSON.stringify(v)\<close> for a value \<open>v\<close> of a parsed
  document: an infinite number has become \<^verbatim>\<open>null\<close>, at the top as inside arrays and
  objects.
\<close>

fun written :: "parsed \<Rightarrow> json" where
  "written JNull = JNull"
| "written (JBool b) = JBool b"
| "written (JNum (Finite x)) = JNum x"
| "written (JNum PosInfinity) = JNull"
| "written (JNum NegInfinity) = JNull"
| "written (JStr s) = JStr s"
| "written (JArr xs) = JArr (map written xs)"
| "written (JObj kvs) = JObj (map (\<lambda>kv. (fst kv, written (snd kv))) kvs)"

fun JSON_parse :: "'n slot_text \<Rightarrow> js_error + 'n js" where
  "JSON_parse (Stringified v) = Inr v"
| "JSON_parse (Unparsable s) = Inl SyntaxError"

text \<open>
  A string that the module wrote, handed back to it as a document: the same string, whose
  numbers are finite.
\<close>

fun parsed_of :: "json \<Rightarrow> parsed" where
  "parsed_of JNull = JNull"
| "parsed_of (JBool b) = JBool b"
| "parsed_of (JNum x) = JNum (Finite x)"
| "parsed_of (JStr s) = JStr s"
| "parsed_of (JArr xs) = JArr (map parsed_of xs)"
| "parsed_of (JObj kvs) = JObj (map (\<lambda>kv. (fst kv, parsed_of (snd kv))) kvs)"


text \<open>Truthiness of a string (\<^verbatim>\<open>tasks ? ... : ...\<close>): only the empty string is falsy.\<close>

fun text_truthy :: "'n slot_text \<Rightarrow> bool" where
  "text_truthy (Stringified v) = True"
| "text_truthy (Unparsable s) = (s \<noteq> [])"

text \<open>
  Truthiness of a JSON value (\<^verbatim>\<open>!x\<close>, \<^verbatim>\<open>x ? a : b\<close>): of the numbers only zero is
  falsy, so an infinite number is truthy.
\<close>

fun js_truthy :: "'n::zero js \<Rightarrow> bool" where
  "js_truthy JNull = False"
| "js_truthy (JBool b) = b"
| "js_truthy (JNum n) = (n \<noteq> 0)"
| "js_truthy (JStr s) = (s \<noteq> [])"
| "js_truthy (JArr xs) = True"
| "js_truthy (JObj kvs) = True"

text \<open>Truthiness of a property read, where \<open>None\<close> is \<^verbatim>\<open>undefined\<close>.\<close>

fun truthy_opt :: "'n::zero js option \<Rightarrow> bool" where
  "truthy_opt None = False"
| "truthy_opt (Some v) = js_truthy v"

text \<open>
  Reading a named property \<^verbatim>\<open>v.name\<close>: a \<^verbatim>\<open>TypeError\<close> on \<^verbatim>\<open>null\<close>, the own
  property of an object, \<^verbatim>\<open>undefined\<close> on anything else (none of the names the program
  reads is defined on strings, numbers, booleans or arrays).
\<close>

fun js_get :: "'n js \<Rightarrow> string \<Rightarrow> js_error + 'n js option" where
  "js_get JNull k = Inl TypeError"
| "js_get (JObj kvs) k = Inr (map_of kvs k)"
| "js_get v k = Inr None"

text \<open>
  The prototype of an object: \<^verbatim>\<open>Object.prototype\<close>, which every object literal and every
  object of \<^verbatim>\<open>JSON.parse\<close> starts with, no prototype, or an object or array that was
  assigned as the prototype.
\<close>

datatype prototype = Object_prototype | Null_prototype | Value_prototype json

text \<open>
  Whether the name \<^verbatim>\<open>__proto__\<close> is, for an object with this prototype and without an
  own property of that name, the accessor of \<^verbatim>\<open>Object.prototype\<close>: it is not when there
  is no prototype, nor when the prototype has an own property \<^verbatim>\<open>__proto__\<close> (a parsed
  \<^verbatim>\<open>{"__proto__": ...}\<close> has one).
\<close>

fun inherits_accessor :: "prototype \<Rightarrow> bool" where
  "inherits_accessor Object_prototype = True"
| "inherits_accessor Null_prototype = False"
| "inherits_accessor (Value_prototype (JObj kvs)) = (map_of kvs ''__proto__'' = None)"
| "inherits_accessor (Value_prototype v) = True"

text \<open>The setter of that accessor: an object, an array or \<^verbatim>\<open>null\<close> becomes the prototype,
  any other value is ignored.\<close>

fun set_prototype :: "prototype \<Rightarrow> json \<Rightarrow> prototype" where
  "set_prototype p JNull = Null_prototype"
| "set_prototype p (JObj kvs) = Value_prototype (JObj kvs)"
| "set_prototype p (JArr xs) = Value_prototype (JArr xs)"
| "set_prototype p v = p"

text \<open>
  The assignment \<^verbatim>\<open>obj[k] = x\<close> on an object with prototype \<open>p\<close> and own properties
  \<open>kvs\<close>: the own property is overwritten in place or appended. The key
  \<^verbatim>\<open>__proto__\<close> is the exception: when it is the inherited accessor, the assignment
  calls the setter and creates no own property. The prototype is not part of what
  \<^verbatim>\<open>JSON.stringify\<close> writes, nor of the own properties read here.
\<close>

definition js_assign ::
  "prototype \<Rightarrow> (string \<times> json) list \<Rightarrow> string \<Rightarrow> json \<Rightarrow> prototype \<times> (string \<times> json) list" where
  "js_assign p kvs k x =
     (if k = ''__proto__'' \<and> map_of kvs k = None \<and> inherits_accessor p
      then (set_prototype p x, kvs)
      else (p, AList.update k x kvs))"

text \<open>The own properties after \<^verbatim>\<open>obj[k] = x\<close> on an object that \<^verbatim>\<open>JSON.parse\<close> returned.\<close>

definition assign :: "(string \<times> json) list \<Rightarrow> string \<Rightarrow> json \<Rightarrow> (string \<times> json) list" where
  "assign kvs k x = snd (js_assign Object_prototype kvs k x)"

text \<open>
  The assignment \<^verbatim>\<open>v[k] = x\<close> on a value (the script is not in strict mode): a
  \<^verbatim>\<open>TypeError\<close> on \<^verbatim>\<open>null\<close>; on a primitive the assignment is silently dropped;
  on an array it creates a named property that \<^verbatim>\<open>JSON.stringify\<close> does not write (the
  names the program assigns are \<^verbatim>\<open>id\<close>, \<^verbatim>\<open>createdAt\<close>, \<^verbatim>\<open>completed\<close>,
  \<^verbatim>\<open>completedAt\<close> and the setting keys; an array index or \<^verbatim>\<open>length\<close> as a setting
  key of an array is not interpreted).
\<close>

fun js_set :: "json \<Rightarrow> string \<Rightarrow> json \<Rightarrow> js_error + json" where
  "js_set JNull k x = Inl TypeError"
| "js_set (JObj kvs) k x = Inr (JObj (assign kvs k x))"
| "js_set v k x = Inr v"

text \<open>Object spread \<^verbatim>\<open>{ ...a, ...b }\<close> on two property lists: the fields of \<open>b\<close> win.\<close>

definition js_spread :: "(string \<times> json) list \<Rightarrow> (string \<times> json) list \<Rightarrow> (string \<times> json) list" where
  "js_spread a b = foldl (\<lambda>acc (k, v). AList.update k v acc) a b"

text \<open>Decimal rendering of a number in a template literal.\<close>

definition digit_char :: "nat \<Rightarrow> char" where
  "digit_char d = char_of (48 + d)"

fun string_of_nat :: "nat \<Rightarrow> string" where
  "string_of_nat n =
     (if n < 10 then [digit_char n] else string_of_nat (n div 10) @ [digit_char (n mod 10)])"

declare string_of_nat.simps [simp del]

text \<open>\<^verbatim>\<open>String.prototype.toLowerCase\<close>, on the ASCII letters.\<close>

definition lower_char :: "char \<Rightarrow> char" where
  "lower_char c =
     (if CHR ''A'' \<le> c \<and> c \<le> CHR ''Z'' then char_of (of_char c + (32::nat)) else c)"

definition toLowerCase :: "string \<Rightarrow> string" where
  "toLowerCase s = map lower_char s"

section \<open>The key-value store\<close>

text \<open>
  \<^verbatim>\<open>localStorage\<close>: the stored items, a quota on the characters the items occupy
  (\<^verbatim>\<open>setItem\<close> throws \<^verbatim>\<open>QuotaExceededError\<close> beyond it), and a flag for a browser that
  denies every access to the store (each call throws).
\<close>

record storage =
  items :: "(string \<times> stored_text) list"
  quota :: nat
  denied :: bool

text \<open>
  The number of characters of a compact serialisation (escape sequences aside; the digits
  of a number are not rendered here, and a number is counted as one character).
\<close>

fun json_length :: "json \<Rightarrow> nat" where
  "json_length JNull = 4"
| "json_length (JBool b) = (if b then 4 else 5)"
| "json_length (JNum n) = 1"
| "json_length (JStr s) = length s + 2"
| "json_length (JArr xs) = 2 + sum_list (map json_length xs) + (length xs - 1)"
| "json_length (JObj kvs) =
     2 + sum_list (map (\<lambda>kv. length (fst kv) + 3 + json_length (snd kv)) kvs) + (length kvs - 1)"

fun text_length :: "stored_text \<Rightarrow> nat" where
  "text_length (Stringified v) = json_length v"
| "text_length (Unparsable s) = length s"

definition used :: "(string \<times> stored_text) list \<Rightarrow> nat" where
  "used kvs = sum_list (map (\<lambda>kv. length (fst kv) + text_length (snd kv)) kvs)"

definition getItem :: "string \<Rightarrow> storage \<Rightarrow> js_error + stored_text option" where
  "getItem k s = (if denied s then Inl SecurityError else Inr (map_of (items s) k))"

definition setItem :: "string \<Rightarrow> stored_text \<Rightarrow> storage \<Rightarrow> js_error + storage" where
  "setItem k v s =
     (if denied s then Inl SecurityError
      else if quota s < used (AList.update k v (items s)) then Inl QuotaExceededError
      else Inr (s\<lparr>items := AList.update k v (items s)\<rparr>))"

definition removeItem :: "string \<Rightarrow> storage \<Rightarrow> js_error + storage" where
  "removeItem k s =
     (if denied s then Inl SecurityError else Inr (s\<lparr>items := AList.delete k (items s)\<rparr>))"

section \<open>The storage module\<close>

text \<open>
  The module's state: the browser's store, and the two module-level default objects.
  \<^verbatim>\<open>getCategories\<close> and \<^verbatim>\<open>getSettings\<close> return the default object itself when
  the slot cannot be read, so \<^verbatim>\<open>categories.push\<close> and \<^verbatim>\<open>settings[key] = value\<close> then
  change the default: the defaults are part of the state. Of the default settings the
  state has the own properties and the prototype, which an assignment to
  \<^verbatim>\<open>__proto__\<close> can replace.
\<close>

record state =
  localStorage :: storage
  DEFAULT_CATEGORIES :: "json list"
  DEFAULT_SETTINGS :: "(string \<times> json) list"
  DEFAULT_SETTINGS_prototype :: prototype

definition TASKS :: string where
  "TASKS = ''taskflow_tasks''"

definition CATEGORIES :: string where
  "CATEGORIES = ''taskflow_categories''"

definition SETTINGS :: string where
  "SETTINGS = ''taskflow_settings''"

definition initial_categories :: "json list" where
  "initial_categories =
     [JObj [(''id'', JStr ''cat_1''), (''name'', JStr ''Work''), (''color'', JStr ''#3b82f6'')],
      JObj [(''id'', JStr ''cat_2''), (''name'', JStr ''Personal''), (''color'', JStr ''#8b5cf6'')],
      JObj [(''id'', JStr ''cat_3''), (''name'', JStr ''Shopping''), (''color'', JStr ''#ec4899'')],
      JObj [(''id'', JStr ''cat_4''), (''name'', JStr ''Health''), (''color'', JStr ''#10b981'')]]"

definition initial_settings :: "(string \<times> json) list" where
  "initial_settings =
     [(''theme'', JStr ''light''), (''sortBy'', JStr ''date''),
      (''filterCategory'', JStr ''all''), (''filterStatus'', JStr ''all'')]"

text \<open>The state when the script is loaded, over a given store.\<close>

definition script_load :: "storage \<Rightarrow> state" where
  "script_load st =
     \<lparr>localStorage = st, DEFAULT_CATEGORIES = initial_categories,
      DEFAULT_SETTINGS = initial_settings, DEFAULT_SETTINGS_prototype = Object_prototype\<rparr>"

definition test_key :: string where
  "test_key = ''__localStorage_test__''"

definition isLocalStorageAvailable :: "state \<Rightarrow> bool \<times> state" where
  "isLocalStorageAvailable s =
     (case setItem test_key (Unparsable test_key) (localStorage s) of
        Inl e \<Rightarrow> (False, s)
      | Inr st1 \<Rightarrow>
          (case removeItem test_key st1 of
             Inl e \<Rightarrow> (False, s\<lparr>localStorage := st1\<rparr>)
           | Inr st2 \<Rightarrow> (True, s\<lparr>localStorage := st2\<rparr>)))"

text \<open>
  The common body of \<^verbatim>\<open>getTasks\<close>, \<^verbatim>\<open>getCategories\<close> and \<^verbatim>\<open>getSettings\<close>:
  \<^verbatim>\<open>const x = localStorage.getItem(KEY); return x ? JSON.parse(x) : DEFAULT\<close> inside a
  \<^verbatim>\<open>try\<close> whose \<^verbatim>\<open>catch\<close> returns the default too. \<open>None\<close> is the case where the
  default is returned.
\<close>

definition read_json :: "string \<Rightarrow> state \<Rightarrow> json option" where
  "read_json k s =
     (case getItem k (localStorage s) of
        Inl e \<Rightarrow> None
      | Inr None \<Rightarrow> None
      | Inr (Some t) \<Rightarrow>
          (if text_truthy t
           then (case JSON_parse t of Inl e \<Rightarrow> None | Inr v \<Rightarrow> Some v)
           else None))"

text \<open>
  The common body of \<^verbatim>\<open>saveTasks\<close>, \<^verbatim>\<open>saveCategories\<close> and \<^verbatim>\<open>saveSettings\<close>:
  \<^verbatim>\<open>localStorage.setItem(KEY, JSON.stringify(v)); return true\<close>, and \<^verbatim>\<open>false\<close> from the
  \<^verbatim>\<open>catch\<close>.
\<close>

definition write_json :: "string \<Rightarrow> json \<Rightarrow> state \<Rightarrow> bool \<times> state" where
  "write_json k v s =
     (case setItem k (JSON_stringify v) (localStorage s) of
        Inl e \<Rightarrow> (False, s)
      | Inr st \<Rightarrow> (True, s\<lparr>localStorage := st\<rparr>))"

definition getTasks :: "state \<Rightarrow> json" where
  "getTasks s = (case read_json TASKS s of None \<Rightarrow> JArr [] | Some v \<Rightarrow> v)"

definition saveTasks :: "json \<Rightarrow> state \<Rightarrow> bool \<times> state" where
  "saveTasks tasks s = write_json TASKS tasks s"

definition getCategories :: "state \<Rightarrow> json" where
  "getCategories s =
     (case read_json CATEGORIES s of None \<Rightarrow> JArr (DEFAULT_CATEGORIES s) | Some v \<Rightarrow> v)"

definition saveCategories :: "json \<Rightarrow> state \<Rightarrow> bool \<times> state" where
  "saveCategories categories s = write_json CATEGORIES categories s"

definition getSettings :: "state \<Rightarrow> json" where
  "getSettings s =
     (case read_json SETTINGS s of None \<Rightarrow> JObj (DEFAULT_SETTINGS s) | Some v \<Rightarrow> v)"

definition saveSettings :: "json \<Rightarrow> state \<Rightarrow> bool \<times> state" where
  "saveSettings settings s = write_json SETTINGS settings s"

text \<open>
  One step of \<^verbatim>\<open>initialize\<close>:
  \<^verbatim>\<open>if (!localStorage.getItem(KEY)) { this.save(DEFAULT); }\<close> for one of the three saves.
  The read may throw (to the \<^verbatim>\<open>catch\<close> of \<^verbatim>\<open>initialize\<close>); the result of the save is
  ignored.
\<close>

definition seed_slot :: "string \<Rightarrow> (state \<Rightarrow> bool \<times> state) \<Rightarrow> state \<Rightarrow> js_error + state" where
  "seed_slot k save s =
     (case getItem k (localStorage s) of
        Inl e \<Rightarrow> Inl e
      | Inr None \<Rightarrow> Inr (snd (save s))
      | Inr (Some t) \<Rightarrow> (if text_truthy t then Inr s else Inr (snd (save s))))"

definition initialize :: "state \<Rightarrow> state" where
  "initialize s =
     (case isLocalStorageAvailable s of
        (False, s0) \<Rightarrow> s0
      | (True, s0) \<Rightarrow>
          (case seed_slot TASKS (saveTasks (JArr [])) s0 of
             Inl e \<Rightarrow> s0
           | Inr s1 \<Rightarrow>
               (case seed_slot CATEGORIES (saveCategories (JArr (DEFAULT_CATEGORIES s1))) s1 of
                  Inl e \<Rightarrow> s1
                | Inr s2 \<Rightarrow>
                    (case seed_slot SETTINGS (saveSettings (JObj (DEFAULT_SETTINGS s2))) s2 of
                       Inl e \<Rightarrow> s2
                     | Inr s3 \<Rightarrow> s3))))"

subsection \<open>Array methods with a callback that may throw\<close>

fun js_findIndex :: "(json \<Rightarrow> js_error + bool) \<Rightarrow> json list \<Rightarrow> js_error + nat option" where
  "js_findIndex p [] = Inr None"
| "js_findIndex p (x # xs) =
     (case p x of
        Inl e \<Rightarrow> Inl e
      | Inr True \<Rightarrow> Inr (Some 0)
      | Inr False \<Rightarrow>
          (case js_findIndex p xs of
             Inl e \<Rightarrow> Inl e
           | Inr None \<Rightarrow> Inr None
           | Inr (Some i) \<Rightarrow> Inr (Some (Suc i))))"

fun js_filter :: "(json \<Rightarrow> js_error + bool) \<Rightarrow> json list \<Rightarrow> js_error + json list" where
  "js_filter p [] = Inr []"
| "js_filter p (x # xs) =
     (case p x of
        Inl e \<Rightarrow> Inl e
      | Inr b \<Rightarrow>
          (case js_filter p xs of
             Inl e \<Rightarrow> Inl e
           | Inr ys \<Rightarrow> Inr (if b then x # ys else ys)))"

fun js_some :: "(json \<Rightarrow> js_error + bool) \<Rightarrow> json list \<Rightarrow> js_error + bool" where
  "js_some p [] = Inr False"
| "js_some p (x # xs) =
     (case p x of
        Inl e \<Rightarrow> Inl e
      | Inr True \<Rightarrow> Inr True
      | Inr False \<Rightarrow> js_some p xs)"

subsection \<open>Tasks\<close>

text \<open>The callback \<^verbatim>\<open>t => t.id === taskId\<close>, for a string \<^verbatim>\<open>taskId\<close>.\<close>

definition id_is :: "string \<Rightarrow> json \<Rightarrow> js_error + bool" where
  "id_is taskId t =
     (case js_get t ''id'' of Inl e \<Rightarrow> Inl e | Inr v \<Rightarrow> Inr (v = Some (JStr taskId)))"

text \<open>The callback \<^verbatim>\<open>t => t.id !== taskId\<close>.\<close>

definition id_is_not :: "string \<Rightarrow> json \<Rightarrow> js_error + bool" where
  "id_is_not taskId t =
     (case js_get t ''id'' of Inl e \<Rightarrow> Inl e | Inr v \<Rightarrow> Inr (v \<noteq> Some (JStr taskId)))"

text \<open>The callback \<^verbatim>\<open>t => !t.completed\<close>.\<close>

definition not_completed :: "json \<Rightarrow> js_error + bool" where
  "not_completed t =
     (case js_get t ''completed'' of Inl e \<Rightarrow> Inl e | Inr v \<Rightarrow> Inr (\<not> truthy_opt v))"

text \<open>
  \<^verbatim>\<open>task_${Date.now()}_${Math.random().toString(36).substr(2, 9)}\<close>: \<open>ms\<close> is the reading
  of the clock and \<open>rnd\<close> the characters kept of the random number.
\<close>

definition task_id :: "nat \<Rightarrow> string \<Rightarrow> string" where
  "task_id ms rnd = ''task_'' @ string_of_nat ms @ ''_'' @ rnd"

text \<open>
  \<^verbatim>\<open>addTask(task)\<close>, for an object \<open>task\<close>; \<open>now_iso\<close> is
  \<^verbatim>\<open>new Date().toISOString()\<close>. \<^verbatim>\<open>tasks.push\<close> throws when the stored value is not an
  array.
\<close>

definition addTask :: "nat \<Rightarrow> string \<Rightarrow> string \<Rightarrow> (string \<times> json) list \<Rightarrow> state \<Rightarrow> bool \<times> state" where
  "addTask ms rnd now_iso task s =
     (let tasks = getTasks s;
          task1 = AList.update ''id'' (JStr (task_id ms rnd)) task;
          task2 = AList.update ''createdAt'' (JStr now_iso) task1;
          task3 = AList.update ''completed'' (JBool False) task2;
          task4 = AList.update ''completedAt'' JNull task3
      in case tasks of
           JArr ts \<Rightarrow> saveTasks (JArr (ts @ [JObj task4])) s
         | _ \<Rightarrow> (False, s))"

text \<open>
  The own enumerable properties that an object spread copies: those of an object, the
  indexed elements of an array, the indexed characters of a string, none otherwise.
\<close>

fun own_props :: "json \<Rightarrow> (string \<times> json) list" where
  "own_props (JObj kvs) = kvs"
| "own_props (JArr xs) = zip (map string_of_nat [0..<length xs]) xs"
| "own_props (JStr cs) = zip (map string_of_nat [0..<length cs]) (map (\<lambda>c. JStr [c]) cs)"
| "own_props v = []"

text \<open>\<^verbatim>\<open>updateTask(taskId, updates)\<close>, for an object \<open>updates\<close>.\<close>

definition updateTask :: "string \<Rightarrow> (string \<times> json) list \<Rightarrow> state \<Rightarrow> bool \<times> state" where
  "updateTask taskId updates s =
     (case getTasks s of
        JArr ts \<Rightarrow>
          (case js_findIndex (id_is taskId) ts of
             Inl e \<Rightarrow> (False, s)
           | Inr None \<Rightarrow> (False, s)
           | Inr (Some taskIndex) \<Rightarrow>
               saveTasks
                 (JArr (ts[taskIndex := JObj (js_spread (own_props (ts ! taskIndex)) updates)])) s)
      | _ \<Rightarrow> (False, s))"

definition deleteTask :: "string \<Rightarrow> state \<Rightarrow> bool \<times> state" where
  "deleteTask taskId s =
     (case getTasks s of
        JArr ts \<Rightarrow>
          (case js_filter (id_is_not taskId) ts of
             Inl e \<Rightarrow> (False, s)
           | Inr filteredTasks \<Rightarrow>
               (if length filteredTasks = length ts then (False, s)
                else saveTasks (JArr filteredTasks) s))
      | _ \<Rightarrow> (False, s))"

text \<open>
  \<^verbatim>\<open>toggleTaskComplete(taskId)\<close>: \<^verbatim>\<open>find\<close> returns the first matching element, and
  the two assignments change it inside the array.
\<close>

definition toggle_fields :: "string \<Rightarrow> json \<Rightarrow> js_error + json" where
  "toggle_fields now_iso task =
     (case js_get task ''completed'' of
        Inl e \<Rightarrow> Inl e
      | Inr v \<Rightarrow>
          (let completed = \<not> truthy_opt v in
           case js_set task ''completed'' (JBool completed) of
             Inl e \<Rightarrow> Inl e
           | Inr task1 \<Rightarrow>
               js_set task1 ''completedAt'' (if completed then JStr now_iso else JNull)))"

definition toggleTaskComplete :: "string \<Rightarrow> string \<Rightarrow> state \<Rightarrow> bool \<times> state" where
  "toggleTaskComplete now_iso taskId s =
     (case getTasks s of
        JArr ts \<Rightarrow>
          (case js_findIndex (id_is taskId) ts of
             Inl e \<Rightarrow> (False, s)
           | Inr None \<Rightarrow> (False, s)
           | Inr (Some i) \<Rightarrow>
               (case toggle_fields now_iso (ts ! i) of
                  Inl e \<Rightarrow> (False, s)
                | Inr task \<Rightarrow> saveTasks (JArr (ts[i := task])) s))
      | _ \<Rightarrow> (False, s))"

definition clearCompletedTasks :: "state \<Rightarrow> bool \<times> state" where
  "clearCompletedTasks s =
     (case getTasks s of
        JArr ts \<Rightarrow>
          (case js_filter not_completed ts of
             Inl e \<Rightarrow> (False, s)
           | Inr activeTasks \<Rightarrow> saveTasks (JArr activeTasks) s)
      | _ \<Rightarrow> (False, s))"

subsection \<open>Categories\<close>

text \<open>
  The callback \<^verbatim>\<open>c => c.name.toLowerCase() === category.name.toLowerCase()\<close>, for an
  object \<open>category\<close>: \<^verbatim>\<open>toLowerCase\<close> exists on strings only.
\<close>

definition same_name :: "(string \<times> json) list \<Rightarrow> json \<Rightarrow> js_error + bool" where
  "same_name category c =
     (case js_get c ''name'' of
        Inl e \<Rightarrow> Inl e
      | Inr (Some (JStr n)) \<Rightarrow>
          (case map_of category ''name'' of
             Some (JStr m) \<Rightarrow> Inr (toLowerCase n = toLowerCase m)
           | _ \<Rightarrow> Inl TypeError)
      | Inr _ \<Rightarrow> Inl TypeError)"

text \<open>\<^verbatim>\<open>cat_${Date.now()}\<close>\<close>

definition cat_id :: "nat \<Rightarrow> string" where
  "cat_id ms = ''cat_'' @ string_of_nat ms"

text \<open>
  \<^verbatim>\<open>addCategory(category)\<close>, for an object \<open>category\<close>. When \<^verbatim>\<open>getCategories\<close>
  returned the default array, \<^verbatim>\<open>push\<close> extends that array, whatever the save does.
\<close>

definition addCategory :: "nat \<Rightarrow> (string \<times> json) list \<Rightarrow> state \<Rightarrow> bool \<times> state" where
  "addCategory ms category s =
     (case getCategories s of
        JArr cs \<Rightarrow>
          (case js_some (same_name category) cs of
             Inl e \<Rightarrow> (False, s)
           | Inr True \<Rightarrow> (False, s)
           | Inr False \<Rightarrow>
               (let categories = cs @ [JObj (AList.update ''id'' (JStr (cat_id ms)) category)];
                    s1 = (case read_json CATEGORIES s of
                            None \<Rightarrow> s\<lparr>DEFAULT_CATEGORIES := categories\<rparr>
                          | Some v \<Rightarrow> s)
                in saveCategories (JArr categories) s1))
      | _ \<Rightarrow> (False, s))"

subsection \<open>Settings\<close>

text \<open>
  \<^verbatim>\<open>updateSetting(key, value)\<close>. When \<^verbatim>\<open>getSettings\<close> returned the default object, the
  assignment changes that object, whatever the save does.
\<close>

definition updateSetting :: "string \<Rightarrow> json \<Rightarrow> state \<Rightarrow> bool \<times> state" where
  "updateSetting key newValue s =
     (case read_json SETTINGS s of
        None \<Rightarrow>
          (case js_assign (DEFAULT_SETTINGS_prototype s) (DEFAULT_SETTINGS s) key newValue of
             (p, settings) \<Rightarrow>
               saveSettings (JObj settings)
                 (s\<lparr>DEFAULT_SETTINGS := settings, DEFAULT_SETTINGS_prototype := p\<rparr>))
      | Some v \<Rightarrow>
          (case js_set v key newValue of
             Inl e \<Rightarrow> (False, s)
           | Inr settings \<Rightarrow> saveSettings settings s))"

subsection \<open>Import and export\<close>


text \<open>
  \<^verbatim>\<open>importData(jsonData)\<close>. The document is tested for the truthiness of its
  \<^verbatim>\<open>tasks\<close> and \<^verbatim>\<open>categories\<close> properties and for nothing else. The values
  go through \<^verbatim>\<open>JSON.stringify\<close> in the saves, which stores \<open>written v\<close> for a value
  \<open>v\<close> of the document. The results of the three saves are not looked at. The
  \<^verbatim>\<open>alert\<close> of the \<^verbatim>\<open>catch\<close> block changes no state.
\<close>

definition importData :: "document \<Rightarrow> state \<Rightarrow> bool \<times> state" where
  "importData jsonData s =
     (case JSON_parse jsonData of
        Inl e \<Rightarrow> (False, s)
      | Inr data \<Rightarrow>
          (case js_get data ''tasks'' of
             Inl e \<Rightarrow> (False, s)
           | Inr None \<Rightarrow> (False, s)
           | Inr (Some tasks) \<Rightarrow>
               (if \<not> js_truthy tasks then (False, s)
                else
                  (case js_get data ''categories'' of
                     Inl e \<Rightarrow> (False, s)
                   | Inr None \<Rightarrow> (False, s)
                   | Inr (Some categories) \<Rightarrow>
                       (if \<not> js_truthy categories then (False, s)
                        else
                          (let s1 = snd (saveTasks (written tasks) s);
                               s2 = snd (saveCategories (written categories) s1)
                           in case js_get data ''settings'' of
                                Inl e \<Rightarrow> (False, s2)
                              | Inr None \<Rightarrow> (True, s2)
                              | Inr (Some settings) \<Rightarrow>
                                  (if js_truthy settings
                                   then (True, snd (saveSettings (written settings) s2))
                                   else (True, s2))))))))"

text \<open>\<^verbatim>\<open>clearAllData()\<close>: the three slots are removed and the store is initialised again.\<close>

definition clearAllData :: "state \<Rightarrow> bool \<times> state" where
  "clearAllData s =
     (case removeItem TASKS (localStorage s) of
        Inl e \<Rightarrow> (False, s)
      | Inr st1 \<Rightarrow>
          (case removeItem CATEGORIES st1 of
             Inl e \<Rightarrow> (False, s\<lparr>localStorage := st1\<rparr>)
           | Inr st2 \<Rightarrow>
               (case removeItem SETTINGS st2 of
                  Inl e \<Rightarrow> (False, s\<lparr>localStorage := st2\<rparr>)
                | Inr st3 \<Rightarrow> (True, initialize (s\<lparr>localStorage := st3\<rparr>)))))"

section \<open>The controller's sort\<close>

text \<open>
  What \<^verbatim>\<open>sortTasks\<close> takes from the runtime: the time value of \<^verbatim>\<open>new Date(v)\<close> for a
  property value \<open>v\<close> (\<open>None\<close> for an invalid date, whose time value is \<^verbatim>\<open>NaN\<close>),
  the collation \<^verbatim>\<open>a.localeCompare(b)\<close> of the browser's locale, and the digits that
  \<^verbatim>\<open>String(x)\<close> renders a number \<open>x\<close> with.
\<close>

record runtime =
  dateValue :: "json option \<Rightarrow> int option"
  localeCompare :: "string \<Rightarrow> string \<Rightarrow> int"
  numberToString :: "double \<Rightarrow> string"

text \<open>\<^verbatim>\<open>String(v)\<close>, the conversion applied to a property key and to the argument of
  \<^verbatim>\<open>localeCompare\<close>.\<close>

fun join_comma :: "string list \<Rightarrow> string" where
  "join_comma [] = []"
| "join_comma [x] = x"
| "join_comma (x # y # ys) = x @ '','' @ join_comma (y # ys)"

fun js_toString :: "runtime \<Rightarrow> json \<Rightarrow> string" where
  "js_toString rt JNull = ''null''"
| "js_toString rt (JBool b) = (if b then ''true'' else ''false'')"
| "js_toString rt (JNum n) = numberToString rt n"
| "js_toString rt (JStr cs) = cs"
| "js_toString rt (JArr xs) =
     join_comma (map (\<lambda>x. if x = JNull then [] else js_toString rt x) xs)"
| "js_toString rt (JObj kvs) = ''[object Object]''"

fun toString_opt :: "runtime \<Rightarrow> json option \<Rightarrow> string" where
  "toString_opt rt None = ''undefined''"
| "toString_opt rt (Some v) = js_toString rt v"

text \<open>
  \<^verbatim>\<open>a !== b\<close> for two values read from different parsed objects: arrays and objects are
  compared by identity, so they differ from everything.
\<close>

fun is_reference :: "json option \<Rightarrow> bool" where
  "is_reference (Some (JArr xs)) = True"
| "is_reference (Some (JObj kvs)) = True"
| "is_reference v = False"

definition strict_neq :: "json option \<Rightarrow> json option \<Rightarrow> bool" where
  "strict_neq a b = (is_reference a \<or> is_reference b \<or> a \<noteq> b)"

text \<open>\<^verbatim>\<open>priorityOrder[p]\<close> for \<^verbatim>\<open>{ high: 0, medium: 1, low: 2 }\<close>; \<open>None\<close> stands for a
  value whose difference is \<^verbatim>\<open>NaN\<close>.\<close>

definition priorityOrder :: "runtime \<Rightarrow> json option \<Rightarrow> int option" where
  "priorityOrder rt p =
     map_of [(''high'', 0), (''medium'', 1), (''low'', 2)] (toString_opt rt p)"

text \<open>The difference of two numbers, \<^verbatim>\<open>NaN\<close> when one of them is.\<close>

fun js_minus :: "int option \<Rightarrow> int option \<Rightarrow> int option" where
  "js_minus (Some x) (Some y) = Some (x - y)"
| "js_minus x y = None"

text \<open>The comparator of \<^verbatim>\<open>sortTasks\<close>.\<close>

definition compareTasks :: "runtime \<Rightarrow> string \<Rightarrow> json \<Rightarrow> json \<Rightarrow> js_error + int option" where
  "compareTasks rt sortBy a b =
     (case js_get a ''completed'' of
        Inl e \<Rightarrow> Inl e
      | Inr ac \<Rightarrow>
          (case js_get b ''completed'' of
             Inl e \<Rightarrow> Inl e
           | Inr bc \<Rightarrow>
               (if strict_neq ac bc then Inr (Some (if truthy_opt ac then 1 else - 1))
                else if sortBy = ''date'' then
                  (case (js_get a ''dueDate'', js_get b ''dueDate'') of
                     (Inr da, Inr db) \<Rightarrow> Inr (js_minus (dateValue rt da) (dateValue rt db))
                   | _ \<Rightarrow> Inl TypeError)
                else if sortBy = ''priority'' then
                  (case (js_get a ''priority'', js_get b ''priority'') of
                     (Inr pa, Inr pb) \<Rightarrow>
                        Inr (js_minus (priorityOrder rt pa) (priorityOrder rt pb))
                   | _ \<Rightarrow> Inl TypeError)
                else if sortBy = ''alphabetical'' then
                  (case (js_get a ''title'', js_get b ''title'') of
                     (Inr (Some (JStr ta)), Inr tb) \<Rightarrow>
                        Inr (Some (localeCompare rt ta (toString_opt rt tb)))
                   | _ \<Rightarrow> Inl TypeError)
                else Inr (Some 0))))"

text \<open>
  \<^verbatim>\<open>Array.prototype.sort(compare)\<close>: the sort is stable, and a comparator result that is
  \<^verbatim>\<open>NaN\<close> counts as \<open>0\<close>. For a consistent comparator the result is determined; it is
  computed here by inserting from the right, an element moving behind those the
  comparator puts before it. An exception of the comparator ends the sort.
\<close>

fun positive :: "int option \<Rightarrow> bool" where
  "positive None = False"
| "positive (Some n) = (0 < n)"

fun sort_insert :: "('a \<Rightarrow> 'a \<Rightarrow> js_error + int option) \<Rightarrow> 'a \<Rightarrow> 'a list \<Rightarrow> js_error + 'a list" where
  "sort_insert c x [] = Inr [x]"
| "sort_insert c x (y # ys) =
     (case c x y of
        Inl e \<Rightarrow> Inl e
      | Inr r \<Rightarrow>
          (if positive r
           then (case sort_insert c x ys of Inl e \<Rightarrow> Inl e | Inr zs \<Rightarrow> Inr (y # zs))
           else Inr (x # y # ys)))"

fun js_sort :: "('a \<Rightarrow> 'a \<Rightarrow> js_error + int option) \<Rightarrow> 'a list \<Rightarrow> js_error + 'a list" where
  "js_sort c [] = Inr []"
| "js_sort c (x # xs) =
     (case js_sort c xs of Inl e \<Rightarrow> Inl e | Inr ys \<Rightarrow> sort_insert c x ys)"

definition sortTasks :: "runtime \<Rightarrow> json list \<Rightarrow> string \<Rightarrow> js_error + json list" where
  "sortTasks rt tasks sortBy = js_sort (compareTasks rt sortBy) tasks"

section \<open>Notions used by the properties\<close>

text \<open>The own property \<open>k\<close> of a stored record, \<open>None\<close> when there is none.\<close>

fun field :: "'n js \<Rightarrow> string \<Rightarrow> 'n js option" where
  "field (JObj kvs) k = map_of kvs k"
| "field v k = None"



text \<open>A stored category whose name is \<open>n\<close> when letter case is ignored.\<close>

definition named_ci :: "string \<Rightarrow> json \<Rightarrow> bool" where
  "named_ci n c =
     (case field c ''name'' of
        Some (JStr x) \<Rightarrow> toLowerCase x = toLowerCase n
      | _ \<Rightarrow> False)"

subsection \<open>The completion invariant\<close>

text \<open>A property that is absent: \<^verbatim>\<open>undefined\<close> or \<^verbatim>\<open>null\<close>.\<close>

fun absent :: "'n js option \<Rightarrow> bool" where
  "absent None = True"
| "absent (Some JNull) = True"
| "absent (Some v) = False"

text \<open>
  The two timestamps are strings in the format of \<^verbatim>\<open>toISOString\<close>, which the
  lexicographic order of strings orders by time.
\<close>

fun not_before :: "'n js option \<Rightarrow> 'n js option \<Rightarrow> bool" where
  "not_before (Some (JStr c)) (Some (JStr a)) = (a \<le> c)"
| "not_before c a = False"

text \<open>
  A task that is not completed has no \<^verbatim>\<open>completedAt\<close>; a completed task has a
  \<^verbatim>\<open>completedAt\<close> that is a timestamp not before its \<^verbatim>\<open>createdAt\<close>.
\<close>

definition task_invariant :: "'n js \<Rightarrow> bool" where
  "task_invariant t =
     ((field t ''completed'' = Some (JBool False) \<longrightarrow> absent (field t ''completedAt'')) \<and>
      (field t ''completed'' = Some (JBool True) \<longrightarrow>
         not_before (field t ''completedAt'') (field t ''createdAt'')))"

subsection \<open>The order of the derived view\<close>

text \<open>
  A task as the data model has it, as far as the sort reads it: \<^verbatim>\<open>completed\<close> is a
  boolean, \<^verbatim>\<open>dueDate\<close> is a valid date, \<^verbatim>\<open>priority\<close> is one of the three levels and
  \<^verbatim>\<open>title\<close> is a string.
\<close>

definition is_task :: "runtime \<Rightarrow> json \<Rightarrow> bool" where
  "is_task rt t =
     ((case field t ''completed'' of Some (JBool b) \<Rightarrow> True | _ \<Rightarrow> False) \<and>
      dateValue rt (field t ''dueDate'') \<noteq> None \<and>
      (field t ''priority'' = Some (JStr ''high'') \<or>
       field t ''priority'' = Some (JStr ''medium'') \<or>
       field t ''priority'' = Some (JStr ''low'')) \<and>
      (case field t ''title'' of Some (JStr x) \<Rightarrow> True | _ \<Rightarrow> False))"

definition completed_of :: "json \<Rightarrow> bool" where
  "completed_of t = (field t ''completed'' = Some (JBool True))"

fun title_of :: "json \<Rightarrow> string" where
  "title_of t = (case field t ''title'' of Some (JStr x) \<Rightarrow> x | _ \<Rightarrow> [])"

text \<open>High before medium before low.\<close>

definition priority_rank :: "json option \<Rightarrow> nat" where
  "priority_rank p =
     (if p = Some (JStr ''high'') then 0
      else if p = Some (JStr ''medium'') then 1
      else if p = Some (JStr ''low'') then 2
      else 3)"

text \<open>
  The secondary key puts \<open>a\<close> strictly before \<open>b\<close>: an earlier due date, a higher
  priority, or a title that the collation puts first; no other value of \<^verbatim>\<open>sortBy\<close> has
  a secondary key.
\<close>

definition secondary_before :: "runtime \<Rightarrow> string \<Rightarrow> json \<Rightarrow> json \<Rightarrow> bool" where
  "secondary_before rt sortBy a b =
     (if sortBy = ''date'' then
        (case (dateValue rt (field a ''dueDate''), dateValue rt (field b ''dueDate'')) of
           (Some x, Some y) \<Rightarrow> x < y
         | _ \<Rightarrow> False)
      else if sortBy = ''priority'' then
        priority_rank (field a ''priority'') < priority_rank (field b ''priority'')
      else if sortBy = ''alphabetical'' then
        localeCompare rt (title_of a) (title_of b) < 0
      else False)"

text \<open>
  The order of the view puts \<open>a\<close> strictly before \<open>b\<close>: \<open>a\<close> is not completed and \<open>b\<close>
  is, or they are in the same completion group and the secondary key puts \<open>a\<close> first.
\<close>

definition must_precede :: "runtime \<Rightarrow> string \<Rightarrow> json \<Rightarrow> json \<Rightarrow> bool" where
  "must_precede rt sortBy a b =
     ((\<not> completed_of a \<and> completed_of b) \<or>
      (completed_of a = completed_of b \<and> secondary_before rt sortBy a b))"

text \<open>Two tasks that the order of the view does not separate.\<close>

definition tie :: "runtime \<Rightarrow> string \<Rightarrow> json \<Rightarrow> json \<Rightarrow> bool" where
  "tie rt sortBy a b = (\<not> must_precede rt sortBy a b \<and> \<not> must_precede rt sortBy b a)"

text \<open>
  A collation is a consistent comparator: exchanging the arguments exchanges the sign,
  and "not after" is transitive.
\<close>

definition consistent_collation :: "(string \<Rightarrow> string \<Rightarrow> int) \<Rightarrow> bool" where
  "consistent_collation lc =
     ((\<forall>a b. (lc a b < 0) = (0 < lc b a)) \<and>
      (\<forall>a b c. lc a b \<le> 0 \<and> lc b c \<le> 0 \<longrightarrow> lc a c \<le> 0))"

subsection \<open>Example states\<close>

definition task_a :: json where
  "task_a = JObj [(''id'', JStr ''task_1_a''), (''title'', JStr ''A''),
                  (''createdAt'', JStr ''2026-01-01T00:00:00.000Z''),
                  (''completed'', JBool False), (''completedAt'', JNull)]"

definition task_b :: json where
  "task_b = JObj [(''id'', JStr ''task_2_b''), (''title'', JStr ''B''),
                  (''createdAt'', JStr ''2026-01-02T00:00:00.000Z''),
                  (''completed'', JBool True),
                  (''completedAt'', JStr ''2026-01-03T00:00:00.000Z'')]"

text \<open>A store with room to spare that holds two tasks and the defaults.\<close>

definition example_store :: storage where
  "example_store =
     \<lparr>items = [(TASKS, Stringified (JArr [task_a, task_b])),
               (CATEGORIES, Stringified (JArr initial_categories)),
               (SETTINGS, Stringified (JObj initial_settings))],
      quota = 5000, denied = False\<rparr>"

definition example_state :: state where
  "example_state = script_load example_store"

text \<open>
  A store that is nearly full: it holds one task in 39 of its 60 characters, so the 42
  characters of the availability probe do not fit, while a shorter task list does.
\<close>

definition full_store :: storage where
  "full_store =
     \<lparr>items = [(TASKS, Stringified (JArr [JObj [(''id'', JStr ''t1''), (''title'', JStr ''A'')]]))],
      quota = 60, denied = False\<rparr>"

text \<open>A browser that denies every access to the store.\<close>

definition denied_store :: storage where
  "denied_store = \<lparr>items = [], quota = 0, denied = True\<rparr>"

text \<open>The task \<open>task_a\<close> marked completed by an update that sets nothing else.\<close>

definition task_a_marked :: "'n js" where
  "task_a_marked = JObj [(''id'', JStr ''task_1_a''), (''title'', JStr ''A''),
                         (''createdAt'', JStr ''2026-01-01T00:00:00.000Z''),
                         (''completed'', JBool True), (''completedAt'', JNull)]"

text \<open>A store that holds an empty task list and an empty category list.\<close>

definition bare_store :: storage where
  "bare_store =
     \<lparr>items = [(TASKS, Stringified (JArr [])), (CATEGORIES, Stringified (JArr []))],
      quota = 5000, denied = False\<rparr>"




text \<open>
  An example runtime: the time values of the dates of the example, the collation that
  compares the characters, and a number rendered by the digits of its integer part (the
  tasks of the example hold no number).
\<close>

definition example_runtime :: runtime where
  "example_runtime =
     \<lparr>dateValue = (\<lambda>v. if v = Some (JStr ''2026-01-01'') then Some 1767225600000
                       else if v = Some (JStr ''2026-02-01'') then Some 1769904000000
                       else None),
      localeCompare = (\<lambda>a b. if a < b then - 1 else if a = b then 0 else 1),
      numberToString =
        (\<lambda>x. (if value_of x < 0 then ''-'' else []) @ string_of_nat (nat \<bar>\<lfloor>value_of x\<rfloor>\<bar>))\<rparr>"

definition task_due_jan :: json where
  "task_due_jan = JObj [(''id'', JStr ''t1''), (''title'', JStr ''Jan''), (''priority'', JStr ''low''),
                        (''dueDate'', JStr ''2026-01-01''), (''completed'', JBool True)]"

definition task_due_feb :: json where
  "task_due_feb = JObj [(''id'', JStr ''t2''), (''title'', JStr ''Feb''), (''priority'', JStr ''high''),
                        (''dueDate'', JStr ''2026-02-01''), (''completed'', JBool False)]"

section \<open>Facts about values\<close>

lemma is_double_of_int: "\<bar>n\<bar> < 2 ^ 53 \<Longrightarrow> is_double (of_int n)"
  unfolding is_double_def by (rule exI [of _ n], rule exI [of _ 0]) simp

lemma value_of_double_of_int: "\<bar>n\<bar> < 2 ^ 53 \<Longrightarrow> value_of (double_of_int n) = of_int n"
  by transfer (simp add: is_double_of_int)


lemma double_of_int_inj:
  "\<bar>m\<bar> < 2 ^ 53 \<Longrightarrow> \<bar>n\<bar> < 2 ^ 53 \<Longrightarrow> (double_of_int m = double_of_int n) = (m = n)"
  by transfer (simp add: is_double_of_int)



lemma map_of_map_snd:
  "map_of (map (\<lambda>kv. (fst kv, f (snd kv))) kvs) k = map_option f (map_of kvs k)"
  by (induction kvs) simp_all

lemma field_parsed_of: "field (parsed_of v) k = map_option parsed_of (field v k)"
  by (cases v) (simp_all add: map_of_map_snd)

lemma field_written: "field (written v) k = map_option written (field v k)"
  by (cases v rule: written.cases) (simp_all add: map_of_map_snd)

lemma written_JBool: "(written v = JBool b) = (v = JBool b)"
  by (induction v rule: written.induct) auto

lemma written_JStr: "(written v = JStr x) = (v = JStr x)"
  by (induction v rule: written.induct) auto

lemma absent_written: "absent v \<Longrightarrow> absent (map_option written v)"
  by (induction v rule: absent.induct) simp_all

lemma not_before_written:
  "not_before c a \<Longrightarrow> not_before (map_option written c) (map_option written a)"
  by (induction c a rule: not_before.induct) simp_all

lemma task_invariant_written: "task_invariant t \<Longrightarrow> task_invariant (written t)"
  unfolding task_invariant_def field_written
  by (auto simp: written_JBool intro: absent_written not_before_written)

lemma assign_update: "k \<noteq> ''__proto__'' \<Longrightarrow> assign kvs k x = AList.update k x kvs"
  by (simp add: assign_def js_assign_def)
section \<open>Reading and writing the slots\<close>

lemmas example_defs =
  example_state_def example_store_def script_load_def task_a_def task_b_def
  TASKS_def CATEGORIES_def SETTINGS_def initial_categories_def initial_settings_def
  getTasks_def getCategories_def getSettings_def read_json_def write_json_def
  saveTasks_def saveCategories_def saveSettings_def getItem_def setItem_def used_def
  JSON_stringify_def assign_def js_assign_def Let_def

lemma write_json_False: "write_json k v s = (False, s') \<Longrightarrow> s' = s"
  by (auto simp: write_json_def split: sum.splits)

lemma write_json_True_read: "write_json k v s = (True, s') \<Longrightarrow> read_json k s' = Some v"
  by (auto simp: write_json_def read_json_def setItem_def getItem_def JSON_stringify_def
      update_conv' split: sum.splits if_splits)

lemma saveTasks_getTasks: "saveTasks v s = (True, s') \<Longrightarrow> getTasks s' = v"
  by (simp add: saveTasks_def getTasks_def write_json_True_read)

lemma js_get_field: "js_get t k = Inr v \<Longrightarrow> field t k = v"
  by (cases t) auto

section \<open>The array methods\<close>

lemma js_findIndex_Some:
  "js_findIndex p xs = Inr (Some i) \<Longrightarrow> i < length xs \<and> p (xs ! i) = Inr True"
proof (induction xs arbitrary: i)
  case Nil
  then show ?case by simp
next
  case (Cons x xs)
  then show ?case
    by (auto split: sum.splits bool.splits option.splits if_splits simp: nth_Cons')
qed

lemma js_filter_Inr:
  "js_filter p xs = Inr ys \<Longrightarrow> ys = filter (\<lambda>x. p x = Inr True) xs"
  by (induction xs arbitrary: ys) (auto split: sum.splits)

lemma js_filter_defined:
  "js_filter p xs = Inr ys \<Longrightarrow> x \<in> set xs \<Longrightarrow> \<exists>b. p x = Inr b"
  by (induction xs arbitrary: ys) (auto split: sum.splits)

lemma id_is_True:
  "id_is tid t = Inr True \<Longrightarrow> \<exists>kvs. t = JObj kvs \<and> map_of kvs ''id'' = Some (JStr tid)"
  by (cases t) (auto simp: id_is_def)

lemma id_is_not_filter:
  assumes "js_filter (id_is_not tid) ts = Inr fs"
  shows "fs = filter (\<lambda>t. field t ''id'' \<noteq> Some (JStr tid)) ts"
proof -
  have "(id_is_not tid x = Inr True) = (field x ''id'' \<noteq> Some (JStr tid))"
    if "x \<in> set ts" for x
  proof -
    from that obtain b where "id_is_not tid x = Inr b"
      using js_filter_defined[OF assms] by blast
    then show ?thesis
      by (cases x) (auto simp: id_is_not_def)
  qed
  then show ?thesis
    using js_filter_Inr[OF assms] by (simp cong: filter_cong)
qed

lemma not_completed_filter:
  assumes "js_filter not_completed ts = Inr fs"
  shows "fs = filter (\<lambda>t. \<not> truthy_opt (field t ''completed'')) ts"
proof -
  have "(not_completed x = Inr True) = (\<not> truthy_opt (field x ''completed''))"
    if "x \<in> set ts" for x
  proof -
    from that obtain b where "not_completed x = Inr b"
      using js_filter_defined[OF assms] by blast
    then show ?thesis
      by (cases x) (auto simp: not_completed_def)
  qed
  then show ?thesis
    using js_filter_Inr[OF assms] by (simp cong: filter_cong)
qed

lemma js_spread_other: "k \<notin> fst ` set b \<Longrightarrow> map_of (js_spread a b) k = map_of a k"
  unfolding js_spread_def
  by (induction b arbitrary: a) (auto simp: update_conv')

section \<open>What the task operations write\<close>

lemma addTask_appends:
  "addTask ms rnd now_iso task s = (True, s') \<Longrightarrow>
     \<exists>ts t. getTasks s = JArr ts \<and> getTasks s' = JArr (ts @ [t])"
  by (auto simp: addTask_def Let_def dest: saveTasks_getTasks split: js.splits)

lemma updateTask_result:
  assumes "getTasks s = JArr ts" "updateTask taskId updates s = (ok, s')"
  shows "s' = s \<or> (\<exists>i kvs. i < length ts \<and> ts ! i = JObj kvs \<and>
           map_of kvs ''id'' = Some (JStr taskId) \<and>
           getTasks s' = JArr (ts[i := JObj (js_spread kvs updates)]))"
proof (cases ok)
  case False
  then show ?thesis using assms
    by (auto simp: updateTask_def saveTasks_def dest: write_json_False
        split: sum.splits option.splits)
next
  case True
  then show ?thesis using assms
    by (auto simp: updateTask_def dest!: saveTasks_getTasks js_findIndex_Some id_is_True
        split: sum.splits option.splits)
qed

lemma toggle_fields_result:
  "toggle_fields now_iso (JObj kvs) =
     Inr (JObj (AList.update ''completedAt''
                  (if \<not> truthy_opt (map_of kvs ''completed'') then JStr now_iso else JNull)
                  (AList.update ''completed''
                     (JBool (\<not> truthy_opt (map_of kvs ''completed''))) kvs)))"
  by (simp add: toggle_fields_def Let_def assign_update)

lemma toggle_result:
  assumes "getTasks s = JArr ts" "toggleTaskComplete now_iso taskId s = (ok, s')"
  shows "s' = s \<or> (\<exists>i kvs. i < length ts \<and> ts ! i = JObj kvs \<and>
           map_of kvs ''id'' = Some (JStr taskId) \<and>
           getTasks s' =
             JArr (ts[i := JObj (AList.update ''completedAt''
                  (if \<not> truthy_opt (map_of kvs ''completed'') then JStr now_iso else JNull)
                  (AList.update ''completed''
                     (JBool (\<not> truthy_opt (map_of kvs ''completed''))) kvs))]))"
proof (cases ok)
  case False
  then show ?thesis using assms
    by (auto simp: toggleTaskComplete_def saveTasks_def dest: write_json_False
        split: sum.splits option.splits)
next
  case True
  with assms obtain i task where i: "js_findIndex (id_is taskId) ts = Inr (Some i)"
    and t: "toggle_fields now_iso (ts ! i) = Inr task"
    and sv: "saveTasks (JArr (ts[i := task])) s = (True, s')"
    by (auto simp: toggleTaskComplete_def split: sum.splits option.splits)
  from js_findIndex_Some[OF i] obtain kvs where k: "i < length ts" "ts ! i = JObj kvs"
    "map_of kvs ''id'' = Some (JStr taskId)"
    by (auto dest: id_is_True)
  from t k have "task = JObj (AList.update ''completedAt''
                  (if \<not> truthy_opt (map_of kvs ''completed'') then JStr now_iso else JNull)
                  (AList.update ''completed''
                     (JBool (\<not> truthy_opt (map_of kvs ''completed''))) kvs))"
    by (simp add: toggle_fields_result)
  with saveTasks_getTasks[OF sv] k show ?thesis by blast
qed

lemma deleteTask_filter:
  "deleteTask taskId s = (True, s') \<Longrightarrow>
     \<exists>ts. getTasks s = JArr ts \<and>
       getTasks s' = JArr (filter (\<lambda>t. field t ''id'' \<noteq> Some (JStr taskId)) ts)"
  by (auto simp: deleteTask_def dest!: saveTasks_getTasks id_is_not_filter
      split: js.splits sum.splits if_splits)

lemma clearCompleted_filter:
  "clearCompletedTasks s = (True, s') \<Longrightarrow>
     \<exists>ts. getTasks s = JArr ts \<and>
       getTasks s' = JArr (filter (\<lambda>t. \<not> truthy_opt (field t ''completed'')) ts)"
  by (auto simp: clearCompletedTasks_def dest!: saveTasks_getTasks not_completed_filter
      split: js.splits sum.splits if_splits)

section \<open>Decimal numerals\<close>

lemmas char_eval = toLowerCase_def lower_char_def digit_char_def char_of_def bit_Suc_0_iff

lemma digit_char_inj: "d < 10 \<Longrightarrow> d' < 10 \<Longrightarrow> digit_char d = digit_char d' \<Longrightarrow> d = d'"
proof -
  assume d: "d < 10" "d' < 10" and e: "digit_char d = digit_char d'"
  from e have "(of_char (digit_char d) :: nat) = of_char (digit_char d')"
    by simp
  with d show "d = d'"
    by (simp add: digit_char_def)
qed

lemma digit_char_not_underscore: "d < 10 \<Longrightarrow> digit_char d \<noteq> CHR ''_''"
proof
  assume d: "d < 10" and e: "digit_char d = CHR ''_''"
  from e have "(of_char (digit_char d) :: nat) = of_char (CHR ''_'')"
    by simp
  with d show False
    by (simp add: digit_char_def)
qed

lemma string_of_nat_nonempty: "string_of_nat n \<noteq> []" "[] \<noteq> string_of_nat n"
  by (subst string_of_nat.simps, simp)+

lemma string_of_nat_small: "n < 10 \<Longrightarrow> string_of_nat n = [digit_char n]"
  by (subst string_of_nat.simps) simp

lemma string_of_nat_large:
  "\<not> n < 10 \<Longrightarrow> string_of_nat n = string_of_nat (n div 10) @ [digit_char (n mod 10)]"
  by (subst string_of_nat.simps) simp

lemma string_of_nat_no_underscore: "CHR ''_'' \<notin> set (string_of_nat n)"
proof (induction n rule: less_induct)
  case (less n)
  show ?case
  proof (cases "n < 10")
    case True
    then show ?thesis
      using digit_char_not_underscore[of n] by (auto simp: string_of_nat_small)
  next
    case False
    then have "n div 10 < n" by simp
    from less[OF this] False show ?thesis
      using digit_char_not_underscore[of "n mod 10"] by (auto simp: string_of_nat_large)
  qed
qed

lemma string_of_nat_inj: "string_of_nat n = string_of_nat m \<Longrightarrow> n = m"
proof (induction n arbitrary: m rule: less_induct)
  case (less n)
  show ?case
  proof (cases "n < 10")
    case n: True
    show ?thesis
    proof (cases "m < 10")
      case True
      with n less.prems show ?thesis
        by (auto simp: string_of_nat_small dest: digit_char_inj)
    next
      case False
      with n less.prems show ?thesis
        by (simp add: string_of_nat_small string_of_nat_large string_of_nat_nonempty)
    qed
  next
    case n: False
    show ?thesis
    proof (cases "m < 10")
      case True
      with n less.prems show ?thesis
        by (simp add: string_of_nat_small string_of_nat_large string_of_nat_nonempty)
    next
      case False
      with n less.prems have e: "string_of_nat (n div 10) = string_of_nat (m div 10)"
        "digit_char (n mod 10) = digit_char (m mod 10)"
        by (simp_all add: string_of_nat_large)
      from n have "n div 10 < n" by simp
      from less.IH[OF this e(1)] have "n div 10 = m div 10" .
      moreover from e(2) have "n mod 10 = m mod 10"
        by (rule digit_char_inj[rotated 2]) simp_all
      ultimately show ?thesis
        by (metis div_mult_mod_eq)
    qed
  qed
qed

lemma split_at_first:
  assumes "c \<notin> set xs" "c \<notin> set ys" "xs @ c # r = ys @ c # r'"
  shows "xs = ys \<and> r = r'"
  using assms
proof (induction xs arbitrary: ys)
  case Nil
  then show ?case by (cases ys) auto
next
  case (Cons x xs)
  then show ?case by (cases ys) auto
qed

lemma task_id_inj: "task_id ms rnd = task_id ms' rnd' \<Longrightarrow> ms = ms' \<and> rnd = rnd'"
proof -
  assume "task_id ms rnd = task_id ms' rnd'"
  then have "string_of_nat ms @ CHR ''_'' # rnd = string_of_nat ms' @ CHR ''_'' # rnd'"
    by (simp add: task_id_def)
  from split_at_first[OF string_of_nat_no_underscore string_of_nat_no_underscore this]
  show ?thesis
    by (auto dest: string_of_nat_inj)
qed

lemma cat_id_inj: "cat_id ms = cat_id ms' \<Longrightarrow> ms = ms'"
  by (simp add: cat_id_def string_of_nat_inj)

section \<open>What \<^verbatim>\<open>addCategory\<close> writes\<close>

lemma saveCategories_getCategories: "saveCategories v s = (True, s') \<Longrightarrow> getCategories s' = v"
  by (simp add: saveCategories_def getCategories_def write_json_True_read)

lemma js_some_True: "x \<in> set xs \<Longrightarrow> p x = Inr True \<Longrightarrow> js_some p xs \<noteq> Inr False"
  by (induction xs) (auto split: sum.splits bool.splits)

lemma js_some_False: "js_some p xs = Inr False \<Longrightarrow> x \<in> set xs \<Longrightarrow> p x = Inr False"
  by (induction xs) (auto split: sum.splits bool.splits)

lemma same_name_True:
  "map_of category ''name'' = Some (JStr n) \<Longrightarrow> named_ci n c \<Longrightarrow> same_name category c = Inr True"
  by (cases c) (auto simp: named_ci_def same_name_def split: option.splits js.splits)

lemma same_name_False:
  "map_of category ''name'' = Some (JStr n) \<Longrightarrow> same_name category c = Inr False \<Longrightarrow> \<not> named_ci n c"
  by (cases c) (auto simp: named_ci_def same_name_def split: option.splits js.splits)

lemma addCategory_duplicate:
  assumes "getCategories s = JArr cs" "map_of category ''name'' = Some (JStr n)"
    and "c \<in> set cs" "named_ci n c"
  shows "addCategory ms category s = (False, s)"
proof -
  from same_name_True[OF assms(2,4)] assms(3)
  have "js_some (same_name category) cs \<noteq> Inr False"
    by (rule js_some_True[rotated])
  then show ?thesis
    using assms(1) by (auto simp: addCategory_def split: sum.splits bool.splits)
qed

lemma addCategory_success:
  assumes "addCategory ms category s = (True, s')"
  shows "\<exists>cs. getCategories s = JArr cs \<and> js_some (same_name category) cs = Inr False \<and>
           getCategories s' =
             JArr (cs @ [JObj (AList.update ''id'' (JStr (cat_id ms)) category)])"
  using assms
  by (auto simp: addCategory_def Let_def dest!: saveCategories_getCategories
      split: js.splits sum.splits bool.splits)

section \<open>Reads after writes\<close>

lemma keys_distinct:
  "TASKS \<noteq> CATEGORIES" "TASKS \<noteq> SETTINGS" "CATEGORIES \<noteq> SETTINGS"
  "CATEGORIES \<noteq> TASKS" "SETTINGS \<noteq> TASKS" "SETTINGS \<noteq> CATEGORIES"
  "test_key \<noteq> TASKS" "test_key \<noteq> CATEGORIES" "test_key \<noteq> SETTINGS"
  by (simp_all add: TASKS_def CATEGORIES_def SETTINGS_def test_key_def)

lemma read_after_write:
  "read_json k' (snd (write_json k v s)) =
     (if k' = k \<and> fst (write_json k v s) then Some v else read_json k' s)"
  by (auto simp: write_json_def read_json_def setItem_def getItem_def JSON_stringify_def
      update_conv' split: sum.splits if_splits)

lemma defaults_after_write:
  "DEFAULT_CATEGORIES (snd (write_json k v s)) = DEFAULT_CATEGORIES s"
  "DEFAULT_SETTINGS (snd (write_json k v s)) = DEFAULT_SETTINGS s"
  by (auto simp: write_json_def split: sum.splits)

lemma importData_result:
  assumes "importData jsonData s = (ok, s')"
  shows "(\<not> ok \<and> s' = s) \<or>
         (\<exists>data tasks categories.
            ok \<and> JSON_parse jsonData = Inr data \<and>
            field data ''tasks'' = Some tasks \<and> js_truthy tasks \<and>
            field data ''categories'' = Some categories \<and> js_truthy categories \<and>
            s' = (let s1 = snd (saveTasks (written tasks) s);
                      s2 = snd (saveCategories (written categories) s1)
                  in if truthy_opt (field data ''settings'')
                     then snd (saveSettings (written (the (field data ''settings''))) s2)
                     else s2))"
proof (cases "JSON_parse jsonData")
  case (Inl e)
  with assms show ?thesis by (simp add: importData_def)
next
  case (Inr data)
  show ?thesis
  proof (cases data)
    case JNull
    with Inr assms show ?thesis by (simp add: importData_def)
  next
    case (JObj kvs)
    with Inr assms show ?thesis
      by (auto simp: importData_def Let_def split: option.splits if_splits)
  qed (use Inr assms in \<open>simp_all add: importData_def\<close>)
qed

lemma getTasks_write:
  "getTasks (snd (write_json k v s)) =
     (if k = TASKS \<and> fst (write_json k v s) then v else getTasks s)"
  by (auto simp: getTasks_def read_after_write)


lemma getSettings_write:
  "getSettings (snd (write_json k v s)) =
     (if k = SETTINGS \<and> fst (write_json k v s) then v else getSettings s)"
  by (auto simp: getSettings_def read_after_write defaults_after_write split: option.splits)

section \<open>The stable sort\<close>

lemma sort_insert_correct:
  assumes cmp: "\<forall>x\<in>A. \<forall>y\<in>A. \<exists>r. c x y = Inr r \<and> (positive r \<longleftrightarrow> \<not> le x y)"
    and total: "\<forall>x\<in>A. \<forall>y\<in>A. le x y \<or> le y x"
    and trans: "\<forall>x\<in>A. \<forall>y\<in>A. \<forall>z\<in>A. le x y \<longrightarrow> le y z \<longrightarrow> le x z"
    and x: "x \<in> A"
  shows "set ys \<subseteq> A \<Longrightarrow> sorted_wrt le ys \<Longrightarrow>
    \<exists>zs. sort_insert c x ys = Inr zs \<and> mset zs = add_mset x (mset ys) \<and> sorted_wrt le zs \<and>
      (\<forall>t\<in>A. filter (\<lambda>u. le t u \<and> le u t) zs = filter (\<lambda>u. le t u \<and> le u t) (x # ys))"
proof (induction ys)
  case Nil
  then show ?case by simp
next
  case (Cons y ys)
  from Cons.prems have y: "y \<in> A" and ys: "set ys \<subseteq> A"
    and sy: "\<forall>z\<in>set ys. le y z" and ss: "sorted_wrt le ys"
    by auto
  from cmp x y obtain r where r: "c x y = Inr r" "positive r \<longleftrightarrow> \<not> le x y"
    by blast
  show ?case
  proof (cases "positive r")
    case False
    with r have xy: "le x y" by simp
    have "\<forall>z\<in>set ys. le x z"
    proof
      fix z assume z: "z \<in> set ys"
      with ys have "z \<in> A" by blast
      with trans x y xy sy z show "le x z" by blast
    qed
    with False r xy Cons.prems show ?thesis by simp
  next
    case True
    with r have nxy: "\<not> le x y" by simp
    with total x y have yx: "le y x" by blast
    from Cons.IH[OF ys ss] obtain zs where zs: "sort_insert c x ys = Inr zs"
      "mset zs = add_mset x (mset ys)" "sorted_wrt le zs"
      "\<forall>t\<in>A. filter (\<lambda>u. le t u \<and> le u t) zs = filter (\<lambda>u. le t u \<and> le u t) (x # ys)"
      by blast
    from zs(2) have "set zs = insert x (set ys)"
      by (metis set_mset_add_mset_insert set_mset_mset)
    with yx sy have "\<forall>z\<in>set zs. le y z" by simp
    with zs(3) have s: "sorted_wrt le (y # zs)" by simp
    have f: "filter (\<lambda>u. le t u \<and> le u t) (y # zs) = filter (\<lambda>u. le t u \<and> le u t) (x # y # ys)"
      if t: "t \<in> A" for t
    proof -
      have "\<not> ((le t x \<and> le x t) \<and> (le t y \<and> le y t))"
        using trans t x y nxy by blast
      with zs(4) t show ?thesis by auto
    qed
    from True r zs(1,2) s f show ?thesis by simp
  qed
qed

lemma js_sort_correct:
  assumes cmp: "\<forall>x\<in>A. \<forall>y\<in>A. \<exists>r. c x y = Inr r \<and> (positive r \<longleftrightarrow> \<not> le x y)"
    and total: "\<forall>x\<in>A. \<forall>y\<in>A. le x y \<or> le y x"
    and trans: "\<forall>x\<in>A. \<forall>y\<in>A. \<forall>z\<in>A. le x y \<longrightarrow> le y z \<longrightarrow> le x z"
  shows "set xs \<subseteq> A \<Longrightarrow>
    \<exists>ys. js_sort c xs = Inr ys \<and> mset ys = mset xs \<and> sorted_wrt le ys \<and>
      (\<forall>t\<in>A. filter (\<lambda>u. le t u \<and> le u t) ys = filter (\<lambda>u. le t u \<and> le u t) xs)"
proof (induction xs)
  case Nil
  then show ?case by simp
next
  case (Cons x xs)
  then have x: "x \<in> A" and xs: "set xs \<subseteq> A" by auto
  from Cons.IH[OF xs] obtain ys where ys: "js_sort c xs = Inr ys" "mset ys = mset xs"
    "sorted_wrt le ys"
    "\<forall>t\<in>A. filter (\<lambda>u. le t u \<and> le u t) ys = filter (\<lambda>u. le t u \<and> le u t) xs"
    by blast
  from ys(2) xs have "set ys \<subseteq> A"
    by (metis set_mset_mset)
  from sort_insert_correct[OF cmp total trans x this ys(3)] obtain zs where
    zs: "sort_insert c x ys = Inr zs" "mset zs = add_mset x (mset ys)" "sorted_wrt le zs"
    "\<forall>t\<in>A. filter (\<lambda>u. le t u \<and> le u t) zs = filter (\<lambda>u. le t u \<and> le u t) (x # ys)"
    by blast
  from zs(4) ys(4) have "\<forall>t\<in>A. filter (\<lambda>u. le t u \<and> le u t) zs =
      filter (\<lambda>u. le t u \<and> le u t) (x # xs)"
    by simp
  with ys(1,2) zs(1,2,3) show ?case by simp
qed

section \<open>The comparator on tasks\<close>

lemma is_task_fields:
  assumes "is_task rt t"
  obtains kvs b d p x where "t = JObj kvs" "map_of kvs ''completed'' = Some (JBool b)"
    "dateValue rt (map_of kvs ''dueDate'') = Some d"
    "map_of kvs ''priority'' = Some (JStr p)" "p = ''high'' \<or> p = ''medium'' \<or> p = ''low''"
    "map_of kvs ''title'' = Some (JStr x)"
proof (cases t)
  case (JObj kvs)
  with assms that show ?thesis
    by (auto simp: is_task_def split: option.splits js.splits)
qed (use assms in \<open>simp_all add: is_task_def\<close>)

lemma priorityOrder_levels:
  "priorityOrder rt (Some (JStr ''high'')) = Some 0"
  "priorityOrder rt (Some (JStr ''medium'')) = Some 1"
  "priorityOrder rt (Some (JStr ''low'')) = Some 2"
  by (simp_all add: priorityOrder_def)

lemma priority_rank_levels:
  "priority_rank (Some (JStr ''high'')) = 0"
  "priority_rank (Some (JStr ''medium'')) = 1"
  "priority_rank (Some (JStr ''low'')) = 2"
  by (simp_all add: priority_rank_def)

lemma collation_flip:
  "consistent_collation lc \<Longrightarrow> (lc a b < 0) = (0 < lc b a)"
  unfolding consistent_collation_def by blast

lemma collation_trans:
  "consistent_collation lc \<Longrightarrow> lc a b \<le> 0 \<Longrightarrow> lc b c \<le> 0 \<Longrightarrow> lc a c \<le> 0"
  unfolding consistent_collation_def by blast

lemma compareTasks_on_tasks:
  assumes a: "is_task rt a" and b: "is_task rt b"
    and lc: "consistent_collation (localeCompare rt)"
  shows "\<exists>r. compareTasks rt sortBy a b = Inr r \<and> (positive r \<longleftrightarrow> must_precede rt sortBy b a)"
proof -
  from a obtain ka ca da pa xa where fa: "a = JObj ka" "map_of ka ''completed'' = Some (JBool ca)"
    "dateValue rt (map_of ka ''dueDate'') = Some da"
    "map_of ka ''priority'' = Some (JStr pa)" "pa = ''high'' \<or> pa = ''medium'' \<or> pa = ''low''"
    "map_of ka ''title'' = Some (JStr xa)"
    by (rule is_task_fields)
  from b obtain kb cb db pb xb where fb: "b = JObj kb" "map_of kb ''completed'' = Some (JBool cb)"
    "dateValue rt (map_of kb ''dueDate'') = Some db"
    "map_of kb ''priority'' = Some (JStr pb)" "pb = ''high'' \<or> pb = ''medium'' \<or> pb = ''low''"
    "map_of kb ''title'' = Some (JStr xb)"
    by (rule is_task_fields)
  have comp: "completed_of a = ca" "completed_of b = cb"
    using fa(1,2) fb(1,2) by (simp_all add: completed_of_def)
  show ?thesis
  proof (cases "ca = cb")
    case False
    then have "compareTasks rt sortBy a b = Inr (Some (if ca then 1 else - 1))"
      using fa(1,2) fb(1,2) by (simp add: compareTasks_def strict_neq_def)
    moreover from False have "must_precede rt sortBy b a \<longleftrightarrow> ca"
      by (auto simp: must_precede_def comp)
    ultimately show ?thesis by simp
  next
    case True
    then have same: "\<not> strict_neq (Some (JBool ca)) (Some (JBool cb))"
      by (simp add: strict_neq_def)
    from True have mp: "must_precede rt sortBy b a \<longleftrightarrow> secondary_before rt sortBy b a"
      by (simp add: must_precede_def comp)
    consider (date) "sortBy = ''date''" | (priority) "sortBy = ''priority''"
      | (alphabetical) "sortBy = ''alphabetical''"
      | (other) "sortBy \<noteq> ''date''" "sortBy \<noteq> ''priority''" "sortBy \<noteq> ''alphabetical''"
      by blast
    then show ?thesis
    proof cases
      case date
      then have "compareTasks rt sortBy a b = Inr (Some (da - db))"
        using fa(1,2,3) fb(1,2,3) same by (simp add: compareTasks_def)
      moreover from date have "secondary_before rt sortBy b a \<longleftrightarrow> db < da"
        using fa(1,3) fb(1,3) by (simp add: secondary_before_def)
      ultimately show ?thesis using mp by simp
    next
      case priority
      then have "compareTasks rt sortBy a b =
          Inr (js_minus (priorityOrder rt (Some (JStr pa))) (priorityOrder rt (Some (JStr pb))))"
        using fa(1,2,4) fb(1,2,4) same by (simp add: compareTasks_def)
      moreover from priority have "secondary_before rt sortBy b a \<longleftrightarrow>
          priority_rank (Some (JStr pb)) < priority_rank (Some (JStr pa))"
        using fa(1,4) fb(1,4) by (simp add: secondary_before_def)
      ultimately show ?thesis
        using mp fa(5) fb(5)
        by (auto simp: priorityOrder_levels priority_rank_levels)
    next
      case alphabetical
      then have "compareTasks rt sortBy a b = Inr (Some (localeCompare rt xa xb))"
        using fa(1,2,6) fb(1,2,6) same by (simp add: compareTasks_def)
      moreover from alphabetical have "secondary_before rt sortBy b a \<longleftrightarrow>
          localeCompare rt xb xa < 0"
        using fa(1,6) fb(1,6) by (simp add: secondary_before_def)
      moreover from lc have "(localeCompare rt xb xa < 0) = (0 < localeCompare rt xa xb)"
        by (rule collation_flip)
      ultimately show ?thesis using mp by simp
    next
      case other
      then have "compareTasks rt sortBy a b = Inr (Some 0)"
        using fa(1,2) fb(1,2) same by (simp add: compareTasks_def)
      moreover from other have "\<not> secondary_before rt sortBy b a"
        by (simp add: secondary_before_def)
      ultimately show ?thesis using mp by simp
    qed
  qed
qed

lemma secondary_asym:
  assumes "consistent_collation (localeCompare rt)"
  shows "\<not> (secondary_before rt sortBy a b \<and> secondary_before rt sortBy b a)"
proof -
  have "\<not> (localeCompare rt x y < 0 \<and> localeCompare rt y x < 0)" for x y
    using collation_flip[OF assms, of x y] by linarith
  then show ?thesis
    by (auto simp: secondary_before_def split: option.splits)
qed

lemma secondary_negtrans:
  assumes lc: "consistent_collation (localeCompare rt)"
    and a: "is_task rt a" and b: "is_task rt b" and c: "is_task rt c"
    and ab: "\<not> secondary_before rt sortBy b a" and bc: "\<not> secondary_before rt sortBy c b"
  shows "\<not> secondary_before rt sortBy c a"
proof -
  from a obtain da where da: "dateValue rt (field a ''dueDate'') = Some da"
    by (auto elim: is_task_fields)
  from b obtain db where db: "dateValue rt (field b ''dueDate'') = Some db"
    by (auto elim: is_task_fields)
  from c obtain dc where dc: "dateValue rt (field c ''dueDate'') = Some dc"
    by (auto elim: is_task_fields)
  have le: "(\<not> localeCompare rt y x < 0) = (localeCompare rt x y \<le> 0)" for x y
    using collation_flip[OF lc, of y x] by linarith
  note tr = collation_trans[OF lc]
  consider (date) "sortBy = ''date''" | (priority) "sortBy = ''priority''"
    | (alphabetical) "sortBy = ''alphabetical''"
    | (other) "sortBy \<noteq> ''date''" "sortBy \<noteq> ''priority''" "sortBy \<noteq> ''alphabetical''"
    by blast
  then show ?thesis
  proof cases
    case date
    with ab bc da db dc show ?thesis by (simp add: secondary_before_def)
  next
    case priority
    with ab bc show ?thesis by (simp add: secondary_before_def)
  next
    case alphabetical
    with ab bc have "localeCompare rt (title_of a) (title_of b) \<le> 0"
      "localeCompare rt (title_of b) (title_of c) \<le> 0"
      by (simp_all add: secondary_before_def le del: title_of.simps)
    from tr[OF this] alphabetical show ?thesis
      by (simp add: secondary_before_def le del: title_of.simps)
  next
    case other
    then show ?thesis by (simp add: secondary_before_def)
  qed
qed

lemma must_precede_total:
  assumes "consistent_collation (localeCompare rt)"
  shows "\<not> must_precede rt sortBy b a \<or> \<not> must_precede rt sortBy a b"
  using secondary_asym[OF assms, of sortBy a b]
  by (auto simp: must_precede_def)

lemma must_precede_negtrans:
  assumes lc: "consistent_collation (localeCompare rt)"
    and a: "is_task rt a" and b: "is_task rt b" and c: "is_task rt c"
    and ab: "\<not> must_precede rt sortBy b a" and bc: "\<not> must_precede rt sortBy c b"
  shows "\<not> must_precede rt sortBy c a"
proof (cases "completed_of a = completed_of b \<and> completed_of b = completed_of c")
  case True
  with ab bc have "\<not> secondary_before rt sortBy b a" "\<not> secondary_before rt sortBy c b"
    by (simp_all add: must_precede_def)
  from secondary_negtrans[OF lc a b c this] True show ?thesis
    by (simp add: must_precede_def)
next
  case False
  with ab bc show ?thesis
    by (auto simp: must_precede_def)
qed

section \<open>Stored order of the tasks\<close>

text \<open>
  Claim C10. Every mutating operation keeps the stored order of the tasks it does not
  remove. One that fails changes nothing. One that succeeds: \<^verbatim>\<open>addTask\<close> writes the former list with one task appended at the end;
  \<^verbatim>\<open>updateTask\<close> and \<^verbatim>\<open>toggleTaskComplete\<close> write the former list with the element at
  one position replaced; \<^verbatim>\<open>deleteTask\<close> and \<^verbatim>\<open>clearCompletedTasks\<close> write the former
  list filtered (the tasks with another id, the tasks that are not completed), so the
  survivors stay in their relative order.
\<close>

theorem mutations_keep_order:
  "(addTask ms rnd now_iso task s = (True, s1) \<longrightarrow>
      (\<exists>ts t. getTasks s = JArr ts \<and> getTasks s1 = JArr (ts @ [t]))) \<and>
   (updateTask taskId updates s = (True, s2) \<longrightarrow>
      (\<exists>ts i t. getTasks s = JArr ts \<and> i < length ts \<and> getTasks s2 = JArr (ts[i := t]))) \<and>
   (toggleTaskComplete now_iso taskId s = (True, s3) \<longrightarrow>
      (\<exists>ts i t. getTasks s = JArr ts \<and> i < length ts \<and> getTasks s3 = JArr (ts[i := t]))) \<and>
   (deleteTask taskId s = (True, s4) \<longrightarrow>
      (\<exists>ts. getTasks s = JArr ts \<and>
         getTasks s4 = JArr (filter (\<lambda>t. field t ''id'' \<noteq> Some (JStr taskId)) ts))) \<and>
   (clearCompletedTasks s = (True, s5) \<longrightarrow>
      (\<exists>ts. getTasks s = JArr ts \<and>
         getTasks s5 = JArr (filter (\<lambda>t. \<not> truthy_opt (field t ''completed'')) ts))) \<and>
   (addTask ms rnd now_iso task s = (False, s1) \<longrightarrow> s1 = s) \<and>
   (updateTask taskId updates s = (False, s2) \<longrightarrow> s2 = s) \<and>
   (toggleTaskComplete now_iso taskId s = (False, s3) \<longrightarrow> s3 = s) \<and>
   (deleteTask taskId s = (False, s4) \<longrightarrow> s4 = s) \<and>
   (clearCompletedTasks s = (False, s5) \<longrightarrow> s5 = s)"
proof (intro conjI impI)
  assume "addTask ms rnd now_iso task s = (True, s1)"
  then show "\<exists>ts t. getTasks s = JArr ts \<and> getTasks s1 = JArr (ts @ [t])"
    by (rule addTask_appends)
next
  assume a: "updateTask taskId updates s = (True, s2)"
  then show "\<exists>ts i t. getTasks s = JArr ts \<and> i < length ts \<and> getTasks s2 = JArr (ts[i := t])"
    by (auto simp: updateTask_def dest!: saveTasks_getTasks js_findIndex_Some
        split: js.splits sum.splits option.splits)
next
  assume a: "toggleTaskComplete now_iso taskId s = (True, s3)"
  then show "\<exists>ts i t. getTasks s = JArr ts \<and> i < length ts \<and> getTasks s3 = JArr (ts[i := t])"
    by (auto simp: toggleTaskComplete_def dest!: saveTasks_getTasks js_findIndex_Some
        split: js.splits sum.splits option.splits)
next
  assume "deleteTask taskId s = (True, s4)"
  then show "\<exists>ts. getTasks s = JArr ts \<and>
      getTasks s4 = JArr (filter (\<lambda>t. field t ''id'' \<noteq> Some (JStr taskId)) ts)"
    by (rule deleteTask_filter)
next
  assume "clearCompletedTasks s = (True, s5)"
  then show "\<exists>ts. getTasks s = JArr ts \<and>
      getTasks s5 = JArr (filter (\<lambda>t. \<not> truthy_opt (field t ''completed'')) ts)"
    by (rule clearCompleted_filter)
next
  assume "addTask ms rnd now_iso task s = (False, s1)"
  then show "s1 = s"
    by (auto simp: addTask_def Let_def saveTasks_def dest: write_json_False split: js.splits)
next
  assume "updateTask taskId updates s = (False, s2)"
  then show "s2 = s"
    by (auto simp: updateTask_def saveTasks_def dest: write_json_False
        split: js.splits sum.splits option.splits)
next
  assume "toggleTaskComplete now_iso taskId s = (False, s3)"
  then show "s3 = s"
    by (auto simp: toggleTaskComplete_def saveTasks_def dest: write_json_False
        split: js.splits sum.splits option.splits)
next
  assume "deleteTask taskId s = (False, s4)"
  then show "s4 = s"
    by (auto simp: deleteTask_def saveTasks_def dest: write_json_False
        split: js.splits sum.splits if_splits)
next
  assume "clearCompletedTasks s = (False, s5)"
  then show "s5 = s"
    by (auto simp: clearCompletedTasks_def saveTasks_def dest: write_json_False
        split: js.splits sum.splits)
qed

theorem mutations_keep_order_witness:
  "getTasks example_state = JArr [task_a, task_b] \<and>
   (\<exists>t. getTasks (snd (addTask 5 ''abc'' ''2026-02-01T00:00:00.000Z'' [(''title'', JStr ''C'')]
                          example_state)) = JArr [task_a, task_b, t]) \<and>
   (\<exists>i t. i < 2 \<and>
      getTasks (snd (updateTask ''task_2_b'' [(''title'', JStr ''C'')] example_state)) =
        JArr ([task_a, task_b][i := t])) \<and>
   (\<exists>i t. i < 2 \<and>
      getTasks (snd (toggleTaskComplete ''2026-02-01T00:00:00.000Z'' ''task_2_b'' example_state)) =
        JArr ([task_a, task_b][i := t])) \<and>
   getTasks (snd (deleteTask ''task_2_b'' example_state)) = JArr [task_a] \<and>
   getTasks (snd (clearCompletedTasks example_state)) = JArr [task_a]"
proof -
  let ?s = example_state
  let ?s1 = "snd (addTask 5 ''abc'' ''2026-02-01T00:00:00.000Z'' [(''title'', JStr ''C'')] ?s)"
  let ?s2 = "snd (updateTask ''task_2_b'' [(''title'', JStr ''C'')] ?s)"
  let ?s3 = "snd (toggleTaskComplete ''2026-02-01T00:00:00.000Z'' ''task_2_b'' ?s)"
  let ?s4 = "snd (deleteTask ''task_2_b'' ?s)"
  let ?s5 = "snd (clearCompletedTasks ?s)"
  have g: "getTasks ?s = JArr [task_a, task_b]"
    by (simp add: example_defs)
  have p1: "addTask 5 ''abc'' ''2026-02-01T00:00:00.000Z'' [(''title'', JStr ''C'')] ?s = (True, ?s1)"
    by (simp add: addTask_def task_id_def string_of_nat.simps example_defs)
  have p2: "updateTask ''task_2_b'' [(''title'', JStr ''C'')] ?s = (True, ?s2)"
    by (simp add: updateTask_def id_is_def js_spread_def example_defs)
  have p3: "toggleTaskComplete ''2026-02-01T00:00:00.000Z'' ''task_2_b'' ?s = (True, ?s3)"
    by (simp add: toggleTaskComplete_def id_is_def toggle_fields_def example_defs)
  have p4: "deleteTask ''task_2_b'' ?s = (True, ?s4)"
    by (simp add: deleteTask_def id_is_not_def example_defs)
  have p5: "clearCompletedTasks ?s = (True, ?s5)"
    by (simp add: clearCompletedTasks_def not_completed_def example_defs)
  have f: "filter (\<lambda>t. field t ''id'' \<noteq> Some (JStr ''task_2_b'')) [task_a, task_b] = [task_a]"
    "filter (\<lambda>t. \<not> truthy_opt (field t ''completed'')) [task_a, task_b] = [task_a]"
    by (simp_all add: task_a_def task_b_def)
  note inst = mutations_keep_order[of 5 "''abc''" "''2026-02-01T00:00:00.000Z''"
      "[(''title'', JStr ''C'')]" ?s ?s1 "''task_2_b''" "[(''title'', JStr ''C'')]" ?s2 ?s3 ?s4 ?s5]
  from inst p1 obtain ts1 t1 where "getTasks ?s = JArr ts1" "getTasks ?s1 = JArr (ts1 @ [t1])"
    by blast
  with g have c1: "\<exists>t. getTasks ?s1 = JArr [task_a, task_b, t]"
    by simp
  from inst p2 obtain ts2 i2 t2 where "getTasks ?s = JArr ts2" "i2 < length ts2"
      "getTasks ?s2 = JArr (ts2[i2 := t2])"
    by blast
  with g have "i2 < 2 \<and> getTasks ?s2 = JArr ([task_a, task_b][i2 := t2])"
    by simp
  then have c2: "\<exists>i t. i < 2 \<and> getTasks ?s2 = JArr ([task_a, task_b][i := t])"
    by blast
  from inst p3 obtain ts3 i3 t3 where "getTasks ?s = JArr ts3" "i3 < length ts3"
      "getTasks ?s3 = JArr (ts3[i3 := t3])"
    by blast
  with g have "i3 < 2 \<and> getTasks ?s3 = JArr ([task_a, task_b][i3 := t3])"
    by simp
  then have c3: "\<exists>i t. i < 2 \<and> getTasks ?s3 = JArr ([task_a, task_b][i := t])"
    by blast
  from inst p4 obtain ts4 where "getTasks ?s = JArr ts4"
      "getTasks ?s4 = JArr (filter (\<lambda>t. field t ''id'' \<noteq> Some (JStr ''task_2_b'')) ts4)"
    by blast
  with g f(1) have c4: "getTasks ?s4 = JArr [task_a]"
    by (simp del: filter.simps)
  from inst p5 obtain ts5 where "getTasks ?s = JArr ts5"
      "getTasks ?s5 = JArr (filter (\<lambda>t. \<not> truthy_opt (field t ''completed'')) ts5)"
    by blast
  with g f(2) have c5: "getTasks ?s5 = JArr [task_a]"
    by (simp del: filter.simps)
  from g c1 c2 c3 c4 c5 show ?thesis
    by blast
qed

section \<open>Import of a document of another shape\<close>




section \<open>Updating one setting\<close>

text \<open>
  Claim C9 says that \<^verbatim>\<open>updateSetting(key, value)\<close> stores the value under the key
  whatever the key is. The key \<^verbatim>\<open>__proto__\<close> is not stored: on the settings record
  read from the store, which has no own property of that name, the assignment
  \<^verbatim>\<open>settings[key] = value\<close> creates none, the record is saved as it was, and the call
  returns \<^verbatim>\<open>true\<close>.
\<close>

theorem proto_key_not_stored:
  "getSettings example_state = JObj initial_settings \<and>
   fst (updateSetting ''__proto__'' (JStr ''dark'') example_state) \<and>
   field (getSettings (snd (updateSetting ''__proto__'' (JStr ''dark'') example_state)))
     ''__proto__'' = None \<and>
   getSettings (snd (updateSetting ''__proto__'' (JStr ''dark'') example_state)) =
     JObj initial_settings"
  by (simp add: updateSetting_def example_defs)

lemma field_js_assign:
  "field (JObj (snd (js_assign p kvs key x))) k =
     (if k = key \<and> \<not> (key = ''__proto__'' \<and> key \<notin> fst ` set kvs \<and> inherits_accessor p)
      then Some x
      else field (JObj kvs) k)"
  by (auto simp: js_assign_def update_conv' map_of_eq_None_iff)

text \<open>
  Claim C9, amended. For a settings record (the settings read are an object) and a
  value of JSON, a call \<^verbatim>\<open>updateSetting(key, value)\<close> leaves a settings record in which
  every other key holds what it held before and in which, when the call succeeds and the
  key is not \<^verbatim>\<open>__proto__\<close> (or is an own property of the record already), \<open>key\<close> holds
  \<open>value\<close>, whether the key is a known one or not.
\<close>

theorem updateSetting_stores_key:
  assumes "getSettings s = JObj kvs" and "updateSetting key newValue s = (ok, s')"
  shows "(\<exists>kvs'. getSettings s' = JObj kvs') \<and>
         (ok \<and> (key \<noteq> ''__proto__'' \<or> key \<in> fst ` set kvs) \<longrightarrow>
            field (getSettings s') key = Some newValue) \<and>
         (\<forall>k. k \<noteq> key \<longrightarrow> field (getSettings s') k = field (getSettings s) k)"
proof (cases "read_json SETTINGS s")
  case None
  let ?r = "js_assign (DEFAULT_SETTINGS_prototype s) (DEFAULT_SETTINGS s) key newValue"
  let ?s1 = "s\<lparr>DEFAULT_SETTINGS := snd ?r, DEFAULT_SETTINGS_prototype := fst ?r\<rparr>"
  from None assms(1) have kvs: "kvs = DEFAULT_SETTINGS s"
    by (simp add: getSettings_def)
  from None assms(2) have "s' = snd (write_json SETTINGS (JObj (snd ?r)) ?s1)"
    by (simp add: updateSetting_def saveSettings_def split: prod.splits)
  moreover from None have "getSettings ?s1 = JObj (snd ?r)"
    by (simp add: getSettings_def read_json_def)
  ultimately have "getSettings s' = JObj (snd ?r)"
    by (simp add: getSettings_write)
  with assms(1) kvs show ?thesis
    by (auto simp: field_js_assign simp del: field.simps)
next
  case (Some v)
  with assms(1) have v: "v = JObj kvs"
    by (simp add: getSettings_def)
  let ?settings = "JObj (assign kvs key newValue)"
  from Some v assms(2) have r: "write_json SETTINGS ?settings s = (ok, s')"
    by (simp add: updateSetting_def saveSettings_def)
  then have "getSettings s' = (if ok then ?settings else getSettings s)"
    using getSettings_write[of SETTINGS ?settings s] by simp
  with assms(1) show ?thesis
    by (auto simp: assign_def field_js_assign simp del: field.simps)
qed

theorem updateSetting_stores_key_witness:
  "getSettings example_state = JObj initial_settings \<and>
   fst (updateSetting ''theme'' (JStr ''dark'') example_state) \<and>
   field (getSettings (snd (updateSetting ''theme'' (JStr ''dark'') example_state))) ''theme'' =
     Some (JStr ''dark'') \<and>
   field (getSettings (snd (updateSetting ''theme'' (JStr ''dark'') example_state))) ''sortBy'' =
     Some (JStr ''date'') \<and>
   fst (updateSetting ''fontSize'' (JNum (double_of_int 12)) example_state) \<and>
   field (getSettings (snd (updateSetting ''fontSize'' (JNum (double_of_int 12)) example_state)))
     ''fontSize'' = Some (JNum (double_of_int 12))"
proof -
  let ?s1 = "snd (updateSetting ''theme'' (JStr ''dark'') example_state)"
  let ?s2 = "snd (updateSetting ''fontSize'' (JNum (double_of_int 12)) example_state)"
  have g: "getSettings example_state = JObj initial_settings"
    by (simp add: example_defs)
  have p1: "updateSetting ''theme'' (JStr ''dark'') example_state = (True, ?s1)"
    by (simp add: updateSetting_def example_defs)
  have p2: "updateSetting ''fontSize'' (JNum (double_of_int 12)) example_state = (True, ?s2)"
    by (simp add: updateSetting_def example_defs)
  have old: "field (getSettings example_state) ''sortBy'' = Some (JStr ''date'')"
    by (simp add: g initial_settings_def)
  from updateSetting_stores_key[OF g p1] have
    "field (getSettings ?s1) ''theme'' = Some (JStr ''dark'')"
    "field (getSettings ?s1) ''sortBy'' = field (getSettings example_state) ''sortBy''"
    by simp_all
  moreover from updateSetting_stores_key[OF g p2] have
    "field (getSettings ?s2) ''fontSize'' = Some (JNum (double_of_int 12))"
    by simp
  moreover from p1 have "fst (updateSetting ''theme'' (JStr ''dark'') example_state)"
    by (metis fst_conv)
  moreover from p2 have "fst (updateSetting ''fontSize'' (JNum (double_of_int 12)) example_state)"
    by (metis fst_conv)
  ultimately show ?thesis
    using g old by simp
qed

section \<open>The identity fields of a task\<close>

text \<open>
  Claim C3 says that \<^verbatim>\<open>updateTask(id, partialFields)\<close> leaves the \<^verbatim>\<open>id\<close> and the
  \<^verbatim>\<open>createdAt\<close> of the task as they were, for every \<^verbatim>\<open>partialFields\<close>. The merge
  \<^verbatim>\<open>{ ...tasks[taskIndex], ...updates }\<close> lets every field of \<^verbatim>\<open>updates\<close> win, the two
  identity fields included: here an update renames the first task of the example state
  and moves its creation time.
\<close>

theorem updateTask_overwrites_identity:
  "getTasks example_state = JArr [task_a, task_b] \<and>
   field task_a ''id'' = Some (JStr ''task_1_a'') \<and>
   field task_a ''createdAt'' = Some (JStr ''2026-01-01T00:00:00.000Z'') \<and>
   fst (updateTask ''task_1_a''
          [(''id'', JStr ''other''), (''createdAt'', JStr ''1999-12-31T00:00:00.000Z'')]
          example_state) \<and>
   getTasks (snd (updateTask ''task_1_a''
          [(''id'', JStr ''other''), (''createdAt'', JStr ''1999-12-31T00:00:00.000Z'')]
          example_state)) =
     JArr [JObj [(''id'', JStr ''other''), (''title'', JStr ''A''),
                 (''createdAt'', JStr ''1999-12-31T00:00:00.000Z''),
                 (''completed'', JBool False), (''completedAt'', JNull)],
           task_b]"
  by (simp add: updateTask_def id_is_def js_spread_def example_defs)

text \<open>
  Claim C3, amended. \<^verbatim>\<open>updateTask(id, partialFields)\<close> leaves the \<^verbatim>\<open>id\<close> and the
  \<^verbatim>\<open>createdAt\<close> of every stored task as they were when \<^verbatim>\<open>partialFields\<close> has neither
  an \<^verbatim>\<open>id\<close> nor a \<^verbatim>\<open>createdAt\<close> field, and \<^verbatim>\<open>toggleTaskComplete\<close> always leaves
  them as they were; both keep the number and the positions of the tasks.
\<close>

theorem identity_fields_kept:
  assumes "getTasks s = JArr ts"
    and "(updateTask taskId updates s = (ok, s') \<and>
            ''id'' \<notin> fst ` set updates \<and> ''createdAt'' \<notin> fst ` set updates) \<or>
         toggleTaskComplete now_iso taskId s = (ok, s')"
  shows "\<exists>ts'. getTasks s' = JArr ts' \<and> length ts' = length ts \<and>
           (\<forall>i<length ts. field (ts' ! i) ''id'' = field (ts ! i) ''id'' \<and>
                           field (ts' ! i) ''createdAt'' = field (ts ! i) ''createdAt'')"
  using assms(2)
proof
  assume u: "updateTask taskId updates s = (ok, s') \<and>
    ''id'' \<notin> fst ` set updates \<and> ''createdAt'' \<notin> fst ` set updates"
  then have "updateTask taskId updates s = (ok, s')"
    by simp
  from updateTask_result[OF assms(1) this] u assms(1) show ?thesis
    by (auto simp: nth_list_update js_spread_other)
next
  assume "toggleTaskComplete now_iso taskId s = (ok, s')"
  from toggle_result[OF assms(1) this] assms(1) show ?thesis
    by (auto simp: nth_list_update update_conv')
qed

theorem identity_fields_kept_witness:
  "\<exists>ts'. getTasks (snd (updateTask ''task_1_a'' [(''title'', JStr ''C'')] example_state)) = JArr ts' \<and>
     length ts' = 2 \<and>
     field (ts' ! 0) ''id'' = Some (JStr ''task_1_a'') \<and>
     field (ts' ! 0) ''createdAt'' = Some (JStr ''2026-01-01T00:00:00.000Z'')"
proof -
  let ?s' = "snd (updateTask ''task_1_a'' [(''title'', JStr ''C'')] example_state)"
  have g: "getTasks example_state = JArr [task_a, task_b]"
    by (simp add: example_defs)
  have p: "updateTask ''task_1_a'' [(''title'', JStr ''C'')] example_state = (True, ?s')"
    by (simp add: updateTask_def id_is_def js_spread_def example_defs)
  have k: "''id'' \<notin> fst ` set [(''title'', JStr ''C'')]"
    "''createdAt'' \<notin> fst ` set [(''title'', JStr ''C'')]"
    by simp_all
  from identity_fields_kept[OF g, of "''task_1_a''" "[(''title'', JStr ''C'')]" True ?s'] p k
  obtain ts' where t: "getTasks ?s' = JArr ts'" "length ts' = length [task_a, task_b]"
    "\<forall>i<length [task_a, task_b]. field (ts' ! i) ''id'' = field ([task_a, task_b] ! i) ''id'' \<and>
        field (ts' ! i) ''createdAt'' = field ([task_a, task_b] ! i) ''createdAt''"
    by blast
  from t(3) have "field (ts' ! 0) ''id'' = field task_a ''id''"
    "field (ts' ! 0) ''createdAt'' = field task_a ''createdAt''"
    by simp_all
  with t(1,2) show ?thesis
    by (simp add: task_a_def)
qed

section \<open>A store that fails the availability probe\<close>

text \<open>
  Claim C1 says that once the probe of \<^verbatim>\<open>isLocalStorageAvailable\<close> has failed, every
  later write is a no-op that returns failure and every later read returns nothing.
  The module keeps no flag: \<^verbatim>\<open>initialize\<close> returns early and the other operations go
  to the store as before. On a store too full for the probe, the task list that is
  stored is still read, and a shorter list is still written, with success.
\<close>

theorem failed_probe_counterexample:
  "\<not> fst (isLocalStorageAvailable (script_load full_store)) \<and>
   getTasks (initialize (script_load full_store)) =
     JArr [JObj [(''id'', JStr ''t1''), (''title'', JStr ''A'')]] \<and>
   saveTasks (JArr []) (initialize (script_load full_store)) =
     (True, script_load (full_store\<lparr>items := [(TASKS, Stringified (JArr []))]\<rparr>))"
  by (simp add: isLocalStorageAvailable_def initialize_def script_load_def full_store_def
      setItem_def used_def test_key_def TASKS_def getTasks_def read_json_def getItem_def
      saveTasks_def write_json_def JSON_stringify_def)

text \<open>
  Claim C1, amended. When the probe fails, \<^verbatim>\<open>initialize\<close> writes nothing: the state is
  what it was and no default is seeded. Afterwards a save that returns failure has
  changed nothing. When the probe fails because the browser denies access to the store,
  every save returns failure and changes nothing, and the three getters return the
  in-memory defaults. (When it fails for lack of room, reads and writes still reach the
  store.)
\<close>

theorem failed_probe_behaviour:
  assumes "\<not> fst (isLocalStorageAvailable s)"
  shows "initialize s = s \<and>
         (\<not> fst (saveTasks v s) \<longrightarrow> snd (saveTasks v s) = s) \<and>
         (\<not> fst (saveCategories v s) \<longrightarrow> snd (saveCategories v s) = s) \<and>
         (\<not> fst (saveSettings v s) \<longrightarrow> snd (saveSettings v s) = s) \<and>
         (denied (localStorage s) \<longrightarrow>
            saveTasks v s = (False, s) \<and> saveCategories v s = (False, s) \<and>
            saveSettings v s = (False, s) \<and>
            getTasks s = JArr [] \<and> getCategories s = JArr (DEFAULT_CATEGORIES s) \<and>
            getSettings s = JObj (DEFAULT_SETTINGS s))"
proof -
  have "initialize s = s"
    using assms
    by (auto simp: isLocalStorageAvailable_def initialize_def removeItem_def setItem_def
        split: sum.splits if_splits)
  moreover have "\<not> fst (write_json k v s) \<longrightarrow> snd (write_json k v s) = s" for k
    by (auto simp: write_json_def split: sum.splits)
  moreover have "denied (localStorage s) \<longrightarrow> write_json k v s = (False, s) \<and> read_json k s = None"
    for k
    by (simp add: write_json_def read_json_def setItem_def getItem_def)
  ultimately show ?thesis
    by (simp add: saveTasks_def saveCategories_def saveSettings_def getTasks_def
        getCategories_def getSettings_def)
qed

theorem failed_probe_behaviour_witness:
  "\<not> fst (isLocalStorageAvailable (script_load denied_store)) \<and>
   initialize (script_load denied_store) = script_load denied_store \<and>
   saveTasks (JArr []) (script_load denied_store) = (False, script_load denied_store) \<and>
   getTasks (script_load denied_store) = JArr [] \<and>
   getCategories (script_load denied_store) = JArr initial_categories \<and>
   getSettings (script_load denied_store) = JObj initial_settings"
proof -
  have p: "\<not> fst (isLocalStorageAvailable (script_load denied_store))"
    by (simp add: isLocalStorageAvailable_def script_load_def denied_store_def setItem_def)
  have d: "denied (localStorage (script_load denied_store))"
    by (simp add: script_load_def denied_store_def)
  have c: "DEFAULT_CATEGORIES (script_load denied_store) = initial_categories"
    "DEFAULT_SETTINGS (script_load denied_store) = initial_settings"
    by (simp_all add: script_load_def)
  from failed_probe_behaviour[OF p, of "JArr []"] p d c show ?thesis
    by simp
qed

section \<open>Category names are unique up to letter case\<close>

text \<open>
  Claim C7. When the category collection holds a category whose name equals the name of
  the argument under case-insensitive comparison, \<^verbatim>\<open>addCategory\<close> returns \<^verbatim>\<open>false\<close>
  and leaves the state, hence the collection, as it was. In particular, when
  \<^verbatim>\<open>addCategory\<close> of a category named "Work" has succeeded, \<^verbatim>\<open>addCategory\<close> of a
  category named "WORK" fails and changes nothing, and the collection holds exactly one
  category named "work" up to letter case.
\<close>

theorem duplicate_category_rejected:
  "(getCategories s = JArr cs \<and> map_of category ''name'' = Some (JStr n) \<and>
      (\<exists>c\<in>set cs. named_ci n c) \<longrightarrow>
      addCategory ms category s = (False, s)) \<and>
   (addCategory ms_a [(''name'', JStr ''Work''), (''color'', col_a)] s = (True, s_a) \<longrightarrow>
      addCategory ms_b [(''name'', JStr ''WORK''), (''color'', col_b)] s_a = (False, s_a) \<and>
      (\<exists>cs1. getCategories s_a = JArr cs1 \<and> length (filter (named_ci ''work'') cs1) = 1))"
proof -
  have first: "addCategory ms category s = (False, s)"
    if "getCategories s = JArr cs \<and> map_of category ''name'' = Some (JStr n) \<and>
      (\<exists>c\<in>set cs. named_ci n c)"
    using that by (auto intro: addCategory_duplicate)
  have second: "addCategory ms_b [(''name'', JStr ''WORK''), (''color'', col_b)] s_a = (False, s_a) \<and>
      (\<exists>cs1. getCategories s_a = JArr cs1 \<and> length (filter (named_ci ''work'') cs1) = 1)"
    if a: "addCategory ms_a [(''name'', JStr ''Work''), (''color'', col_a)] s = (True, s_a)"
  proof -
    let ?new = "JObj (AList.update ''id'' (JStr (cat_id ms_a))
                  [(''name'', JStr ''Work''), (''color'', col_a)])"
    from addCategory_success[OF a] obtain cs where
      cs: "js_some (same_name [(''name'', JStr ''Work''), (''color'', col_a)]) cs = Inr False"
      and g: "getCategories s_a = JArr (cs @ [?new])"
      by blast
    have lower: "toLowerCase ''Work'' = ''work''" "toLowerCase ''WORK'' = ''work''"
      "toLowerCase ''work'' = ''work''"
      by (simp_all add: char_eval)
    have new: "named_ci ''WORK'' ?new" "named_ci ''work'' ?new"
      by (simp_all add: named_ci_def lower)
    have old: "\<not> named_ci ''work'' c" if "c \<in> set cs" for c
    proof -
      from js_some_False[OF cs that] have "\<not> named_ci ''Work'' c"
        by (rule same_name_False[rotated]) simp
      then show ?thesis
        by (simp add: named_ci_def lower cong: option.case_cong js.case_cong)
    qed
    have "addCategory ms_b [(''name'', JStr ''WORK''), (''color'', col_b)] s_a = (False, s_a)"
      by (rule addCategory_duplicate[OF g _ _ new(1)]) simp_all
    moreover from old have "filter (named_ci ''work'') cs = []"
      by (simp add: filter_empty_conv)
    with new(2) have "length (filter (named_ci ''work'') (cs @ [?new])) = 1"
      by simp
    ultimately show ?thesis
      using g by blast
  qed
  from first second show ?thesis
    by blast
qed

theorem duplicate_category_rejected_witness:
  "addCategory 7 [(''name'', JStr ''WORK''), (''color'', JStr ''#000000'')] example_state =
     (False, example_state) \<and>
   fst (addCategory 7 [(''name'', JStr ''Work''), (''color'', JStr ''#000000'')]
          (script_load bare_store)) \<and>
   addCategory 8 [(''name'', JStr ''WORK''), (''color'', JStr ''#ffffff'')]
     (snd (addCategory 7 [(''name'', JStr ''Work''), (''color'', JStr ''#000000'')]
             (script_load bare_store))) =
     (False, snd (addCategory 7 [(''name'', JStr ''Work''), (''color'', JStr ''#000000'')]
                    (script_load bare_store))) \<and>
   (\<exists>cs1. getCategories (snd (addCategory 7 [(''name'', JStr ''Work''), (''color'', JStr ''#000000'')]
                                (script_load bare_store))) = JArr cs1 \<and>
      length (filter (named_ci ''work'') cs1) = 1)"
proof -
  let ?s1 = "snd (addCategory 7 [(''name'', JStr ''Work''), (''color'', JStr ''#000000'')]
                    (script_load bare_store))"
  have g: "getCategories example_state = JArr initial_categories"
    by (simp add: example_defs)
  have n: "map_of [(''name'', JStr ''WORK''), (''color'', JStr ''#000000'')] ''name'' =
      Some (JStr ''WORK'')"
    by simp
  have "named_ci ''WORK'' (JObj [(''id'', JStr ''cat_1''), (''name'', JStr ''Work''),
      (''color'', JStr ''#3b82f6'')])"
    by (simp add: named_ci_def char_eval)
  then have d: "\<exists>c\<in>set initial_categories. named_ci ''WORK'' c"
    by (simp add: initial_categories_def)
  have p: "addCategory 7 [(''name'', JStr ''Work''), (''color'', JStr ''#000000'')]
      (script_load bare_store) = (True, ?s1)"
    by (simp add: addCategory_def cat_id_def string_of_nat.simps bare_store_def example_defs)
  note inst1 = duplicate_category_rejected[where s = example_state and cs = initial_categories
      and category = "[(''name'', JStr ''WORK''), (''color'', JStr ''#000000'')]"
      and n = "''WORK''" and ms = 7]
  note inst2 = duplicate_category_rejected[where s = "script_load bare_store" and ms_a = 7
      and col_a = "JStr ''#000000''" and s_a = ?s1 and ms_b = 8 and col_b = "JStr ''#ffffff''"]
  from inst1 g n d have "addCategory 7 [(''name'', JStr ''WORK''), (''color'', JStr ''#000000'')]
      example_state = (False, example_state)"
    by blast
  moreover from inst2 p have
    "addCategory 8 [(''name'', JStr ''WORK''), (''color'', JStr ''#ffffff'')] ?s1 = (False, ?s1) \<and>
     (\<exists>cs1. getCategories ?s1 = JArr cs1 \<and> length (filter (named_ci ''work'') cs1) = 1)"
    by blast
  moreover from p have "fst (addCategory 7 [(''name'', JStr ''Work''), (''color'', JStr ''#000000'')]
      (script_load bare_store))"
    by (metis fst_conv)
  ultimately show ?thesis
    by blast
qed

section \<open>The ids assigned at creation\<close>

text \<open>
  Claim C8 says that the id assigned by \<^verbatim>\<open>addTask\<close>, and by a successful
  \<^verbatim>\<open>addCategory\<close>, differs from every id already stored. The ids are not compared with
  the stored ones: a task id is formed from the clock and a random suffix, a category id
  from the clock alone. Two tasks added at the same millisecond with the same suffix get
  the same id, and so do two categories added at the same millisecond.
\<close>

theorem colliding_ids_counterexample:
  "getTasks (snd (addTask 1737889234567 ''abc123def'' ''2025-01-26T11:00:34.567Z''
                    [(''title'', JStr ''D'')]
               (snd (addTask 1737889234567 ''abc123def'' ''2025-01-26T11:00:34.567Z''
                       [(''title'', JStr ''C'')] (script_load bare_store))))) =
     JArr [JObj [(''title'', JStr ''C''), (''id'', JStr ''task_1737889234567_abc123def''),
                 (''createdAt'', JStr ''2025-01-26T11:00:34.567Z''),
                 (''completed'', JBool False), (''completedAt'', JNull)],
           JObj [(''title'', JStr ''D''), (''id'', JStr ''task_1737889234567_abc123def''),
                 (''createdAt'', JStr ''2025-01-26T11:00:34.567Z''),
                 (''completed'', JBool False), (''completedAt'', JNull)]] \<and>
   fst (addCategory 1737889234567 [(''name'', JStr ''Travel'')]
          (snd (addCategory 1737889234567 [(''name'', JStr ''Garden'')]
                  (script_load bare_store)))) \<and>
   getCategories (snd (addCategory 1737889234567 [(''name'', JStr ''Travel'')]
                    (snd (addCategory 1737889234567 [(''name'', JStr ''Garden'')]
                            (script_load bare_store))))) =
     JArr [JObj [(''name'', JStr ''Garden''), (''id'', JStr ''cat_1737889234567'')],
           JObj [(''name'', JStr ''Travel''), (''id'', JStr ''cat_1737889234567'')]]"
proof -
  have d: "string_of_nat 1737889234567 = ''1737889234567''"
    by (simp add: string_of_nat.simps char_eval)
  have l: "toLowerCase ''Garden'' \<noteq> toLowerCase ''Travel''"
    by (simp add: char_eval)
  show ?thesis
    using l
    by (simp add: addTask_def addCategory_def same_name_def task_id_def cat_id_def d
        bare_store_def example_defs)
qed

text \<open>
  Claim C8, amended. The id assigned by \<^verbatim>\<open>addTask\<close> is \<^verbatim>\<open>task_\<close>, the clock reading,
  \<^verbatim>\<open>_\<close> and the random suffix; it differs from the id of every stored task whose id was
  formed in this way from another clock reading or another suffix. The id assigned by a
  successful \<^verbatim>\<open>addCategory\<close> is \<^verbatim>\<open>cat_\<close> and the clock reading; it differs from the id
  of every stored category whose id was formed in this way from another clock reading.
\<close>

theorem assigned_ids:
  "(addTask ms rnd now_iso task s = (True, s1) \<longrightarrow>
      (\<exists>ts t. getTasks s = JArr ts \<and> getTasks s1 = JArr (ts @ [t]) \<and>
         field t ''id'' = Some (JStr (task_id ms rnd)) \<and>
         (\<forall>u\<in>set ts. \<forall>ms' rnd'.
            field u ''id'' = Some (JStr (task_id ms' rnd')) \<and> (ms', rnd') \<noteq> (ms, rnd) \<longrightarrow>
            field u ''id'' \<noteq> field t ''id''))) \<and>
   (addCategory ms category s = (True, s2) \<longrightarrow>
      (\<exists>cs c. getCategories s = JArr cs \<and> getCategories s2 = JArr (cs @ [c]) \<and>
         field c ''id'' = Some (JStr (cat_id ms)) \<and>
         (\<forall>u\<in>set cs. \<forall>ms'.
            field u ''id'' = Some (JStr (cat_id ms')) \<and> ms' \<noteq> ms \<longrightarrow>
            field u ''id'' \<noteq> field c ''id'')))"
proof -
  have tasks: "\<exists>ts t. getTasks s = JArr ts \<and> getTasks s1 = JArr (ts @ [t]) \<and>
         field t ''id'' = Some (JStr (task_id ms rnd)) \<and>
         (\<forall>u\<in>set ts. \<forall>ms' rnd'.
            field u ''id'' = Some (JStr (task_id ms' rnd')) \<and> (ms', rnd') \<noteq> (ms, rnd) \<longrightarrow>
            field u ''id'' \<noteq> field t ''id'')"
    if a: "addTask ms rnd now_iso task s = (True, s1)"
  proof -
    let ?t = "JObj (AList.update ''completedAt'' JNull
               (AList.update ''completed'' (JBool False)
                 (AList.update ''createdAt'' (JStr now_iso)
                   (AList.update ''id'' (JStr (task_id ms rnd)) task))))"
    from a obtain ts where ts: "getTasks s = JArr ts" "getTasks s1 = JArr (ts @ [?t])"
      by (auto simp: addTask_def Let_def dest: saveTasks_getTasks split: js.splits)
    have i: "field ?t ''id'' = Some (JStr (task_id ms rnd))"
      by (simp add: update_conv')
    have "field u ''id'' \<noteq> field ?t ''id''"
      if "field u ''id'' = Some (JStr (task_id ms' rnd')) \<and> (ms', rnd') \<noteq> (ms, rnd)"
      for u ms' rnd'
      using that i by (auto dest: task_id_inj)
    with ts i show ?thesis
      by blast
  qed
  have cats: "\<exists>cs c. getCategories s = JArr cs \<and> getCategories s2 = JArr (cs @ [c]) \<and>
         field c ''id'' = Some (JStr (cat_id ms)) \<and>
         (\<forall>u\<in>set cs. \<forall>ms'.
            field u ''id'' = Some (JStr (cat_id ms')) \<and> ms' \<noteq> ms \<longrightarrow>
            field u ''id'' \<noteq> field c ''id'')"
    if a: "addCategory ms category s = (True, s2)"
  proof -
    let ?c = "JObj (AList.update ''id'' (JStr (cat_id ms)) category)"
    from addCategory_success[OF a] obtain cs where
      cs: "getCategories s = JArr cs" "getCategories s2 = JArr (cs @ [?c])"
      by blast
    have i: "field ?c ''id'' = Some (JStr (cat_id ms))"
      by (simp add: update_conv')
    have "field u ''id'' \<noteq> field ?c ''id''"
      if "field u ''id'' = Some (JStr (cat_id ms')) \<and> ms' \<noteq> ms" for u ms'
      using that i by (auto dest: cat_id_inj)
    with cs i show ?thesis
      by blast
  qed
  from tasks cats show ?thesis
    by blast
qed

theorem assigned_ids_witness:
  "fst (addTask 5 ''abc'' ''2026-02-01T00:00:00.000Z'' [(''title'', JStr ''C'')] example_state) \<and>
   (\<exists>t. getTasks (snd (addTask 5 ''abc'' ''2026-02-01T00:00:00.000Z'' [(''title'', JStr ''C'')]
                          example_state)) = JArr [task_a, task_b, t] \<and>
        field t ''id'' = Some (JStr ''task_5_abc'') \<and>
        field task_a ''id'' \<noteq> field t ''id'' \<and> field task_b ''id'' \<noteq> field t ''id'') \<and>
   fst (addCategory 5 [(''name'', JStr ''Travel'')] example_state) \<and>
   (\<exists>c. getCategories (snd (addCategory 5 [(''name'', JStr ''Travel'')] example_state)) =
          JArr (initial_categories @ [c]) \<and>
        field c ''id'' = Some (JStr ''cat_5'') \<and>
        (\<forall>u\<in>set initial_categories. field u ''id'' \<noteq> field c ''id''))"
proof -
  let ?s1 = "snd (addTask 5 ''abc'' ''2026-02-01T00:00:00.000Z'' [(''title'', JStr ''C'')]
                    example_state)"
  let ?s2 = "snd (addCategory 5 [(''name'', JStr ''Travel'')] example_state)"
  have ids: "task_id 5 ''abc'' = ''task_5_abc''" "task_id 1 ''a'' = ''task_1_a''"
    "task_id 2 ''b'' = ''task_2_b''" "cat_id 5 = ''cat_5''" "cat_id 1 = ''cat_1''"
    "cat_id 2 = ''cat_2''" "cat_id 3 = ''cat_3''" "cat_id 4 = ''cat_4''"
    by (simp_all add: task_id_def cat_id_def string_of_nat.simps char_eval)
  have gt: "getTasks example_state = JArr [task_a, task_b]"
    and gc: "getCategories example_state = JArr initial_categories"
    by (simp_all add: example_defs)
  have p1: "addTask 5 ''abc'' ''2026-02-01T00:00:00.000Z'' [(''title'', JStr ''C'')]
      example_state = (True, ?s1)"
    by (simp add: addTask_def ids example_defs)
  have p2: "addCategory 5 [(''name'', JStr ''Travel'')] example_state = (True, ?s2)"
    by (simp add: addCategory_def same_name_def cat_id_def string_of_nat.simps char_eval
        example_defs)
  note inst = assigned_ids[of 5 "''abc''" "''2026-02-01T00:00:00.000Z''"
      "[(''title'', JStr ''C'')]" example_state ?s1 "[(''name'', JStr ''Travel'')]" ?s2]
  from inst p1 gt obtain t where t: "getTasks ?s1 = JArr ([task_a, task_b] @ [t])"
    "field t ''id'' = Some (JStr (task_id 5 ''abc''))"
    "\<forall>u\<in>set [task_a, task_b]. \<forall>ms' rnd'.
        field u ''id'' = Some (JStr (task_id ms' rnd')) \<and> (ms', rnd') \<noteq> (5, ''abc'') \<longrightarrow>
        field u ''id'' \<noteq> field t ''id''"
    by auto
  have "field task_a ''id'' = Some (JStr (task_id 1 ''a'')) \<and> (1, ''a'') \<noteq> (5 :: nat, ''abc'')"
    "field task_b ''id'' = Some (JStr (task_id 2 ''b'')) \<and> (2, ''b'') \<noteq> (5 :: nat, ''abc'')"
    by (simp_all add: ids task_a_def task_b_def del: One_nat_def)
  with t(3) have tn: "field task_a ''id'' \<noteq> field t ''id''" "field task_b ''id'' \<noteq> field t ''id''"
    by (metis list.set_intros(1,2))+
  from inst p2 gc obtain c where c: "getCategories ?s2 = JArr (initial_categories @ [c])"
    "field c ''id'' = Some (JStr (cat_id 5))"
    "\<forall>u\<in>set initial_categories. \<forall>ms'.
        field u ''id'' = Some (JStr (cat_id ms')) \<and> ms' \<noteq> 5 \<longrightarrow> field u ''id'' \<noteq> field c ''id''"
    by auto
  have "\<exists>ms'. field u ''id'' = Some (JStr (cat_id ms')) \<and> ms' \<noteq> 5"
    if "u \<in> set initial_categories" for u
  proof -
    from that consider "field u ''id'' = Some (JStr (cat_id 1))"
      | "field u ''id'' = Some (JStr (cat_id 2))" | "field u ''id'' = Some (JStr (cat_id 3))"
      | "field u ''id'' = Some (JStr (cat_id 4))"
      by (auto simp: initial_categories_def ids simp del: One_nat_def)
    then show ?thesis
    proof cases
      case 1
      then show ?thesis by (intro exI[of _ 1]) simp
    next
      case 2
      then show ?thesis by (intro exI[of _ 2]) simp
    next
      case 3
      then show ?thesis by (intro exI[of _ 3]) simp
    next
      case 4
      then show ?thesis by (intro exI[of _ 4]) simp
    qed
  qed
  with c(3) have cn: "\<forall>u\<in>set initial_categories. field u ''id'' \<noteq> field c ''id''"
    by blast
  from p1 have f1: "fst (addTask 5 ''abc'' ''2026-02-01T00:00:00.000Z'' [(''title'', JStr ''C'')]
      example_state)"
    by (metis fst_conv)
  from p2 have f2: "fst (addCategory 5 [(''name'', JStr ''Travel'')] example_state)"
    by (metis fst_conv)
  from t(1,2) tn have "\<exists>t. getTasks ?s1 = JArr [task_a, task_b, t] \<and>
        field t ''id'' = Some (JStr ''task_5_abc'') \<and>
        field task_a ''id'' \<noteq> field t ''id'' \<and> field task_b ''id'' \<noteq> field t ''id''"
    by (auto simp: ids)
  moreover from c(1,2) cn have "\<exists>c. getCategories ?s2 = JArr (initial_categories @ [c]) \<and>
        field c ''id'' = Some (JStr ''cat_5'') \<and>
        (\<forall>u\<in>set initial_categories. field u ''id'' \<noteq> field c ''id'')"
    by (auto simp: ids)
  ultimately show ?thesis
    using f1 f2 by blast
qed

section \<open>The completion invariant\<close>

text \<open>
  Claim C2 says that every public operation keeps the invariant of the tasks:
  no \<^verbatim>\<open>completedAt\<close> on a task that is not completed, a \<^verbatim>\<open>completedAt\<close> not before
  \<^verbatim>\<open>createdAt\<close> on a completed one. \<^verbatim>\<open>updateTask\<close> merges whatever fields it is given
  and \<^verbatim>\<open>importData\<close> stores whatever tasks the document has: an update that sets only
  \<^verbatim>\<open>completed\<close> leaves a completed task without \<^verbatim>\<open>completedAt\<close>, and so does the import
  of a document with such a task.
\<close>

theorem invariant_broken_counterexample:
  "getTasks example_state = JArr [task_a, task_b] \<and>
   task_invariant task_a \<and> task_invariant task_b \<and>
   fst (updateTask ''task_1_a'' [(''completed'', JBool True)] example_state) \<and>
   getTasks (snd (updateTask ''task_1_a'' [(''completed'', JBool True)] example_state)) =
     JArr [task_a_marked, task_b] \<and>
   fst (importData (Stringified (JObj [(''tasks'', JArr [task_a_marked]), (''categories'', JArr [])]))
          example_state) \<and>
   getTasks (snd (importData
       (Stringified (JObj [(''tasks'', JArr [task_a_marked]), (''categories'', JArr [])]))
       example_state)) = JArr [task_a_marked] \<and>
   \<not> task_invariant (task_a_marked :: json)"
  by (simp add: task_invariant_def task_a_marked_def updateTask_def id_is_def js_spread_def
      importData_def example_defs)

lemma new_task_invariant:
  "task_invariant (JObj (AList.update ''completedAt'' JNull
       (AList.update ''completed'' (JBool False) kvs)))"
  by (simp add: task_invariant_def update_conv')

lemma toggled_task_invariant:
  assumes "map_of kvs ''createdAt'' = Some (JStr a)" "a \<le> now_iso"
  shows "task_invariant (JObj (AList.update ''completedAt''
            (if \<not> truthy_opt (map_of kvs ''completed'') then JStr now_iso else JNull)
            (AList.update ''completed'' (JBool (\<not> truthy_opt (map_of kvs ''completed''))) kvs)))"
  using assms by (simp add: task_invariant_def update_conv')

lemma updated_task_invariant:
  assumes "task_invariant (JObj kvs)"
    and "''completed'' \<notin> fst ` set updates" "''completedAt'' \<notin> fst ` set updates"
    and "''createdAt'' \<notin> fst ` set updates"
  shows "task_invariant (JObj (js_spread kvs updates))"
  using assms by (simp add: task_invariant_def js_spread_other)

lemma invariant_list_update:
  "\<forall>t\<in>set ts. task_invariant t \<Longrightarrow> task_invariant x \<Longrightarrow> \<forall>t\<in>set (ts[i := x]). task_invariant t"
  using set_update_subset_insert[of ts i x] by auto

lemma addTask_result:
  assumes "getTasks s = JArr ts" "addTask ms rnd now_iso task s = (ok, s')"
  shows "s' = s \<or>
         getTasks s' = JArr (ts @ [JObj (AList.update ''completedAt'' JNull
            (AList.update ''completed'' (JBool False)
               (AList.update ''createdAt'' (JStr now_iso)
                  (AList.update ''id'' (JStr (task_id ms rnd)) task))))])"
proof (cases ok)
  case False
  with assms show ?thesis
    by (auto simp: addTask_def Let_def saveTasks_def dest: write_json_False)
next
  case True
  with assms show ?thesis
    by (auto simp: addTask_def Let_def dest: saveTasks_getTasks)
qed

lemma importData_tasks:
  assumes "importData jsonData s = (ok, s')"
  shows "getTasks s' = getTasks s \<or>
         (\<exists>data tasks. JSON_parse jsonData = Inr data \<and> field data ''tasks'' = Some tasks \<and>
            getTasks s' = written tasks)"
  using importData_result[OF assms]
  by (auto simp: Let_def saveTasks_def saveCategories_def saveSettings_def getTasks_write
      keys_distinct split: if_splits)

text \<open>
  Claim C2, amended. From a state whose tasks all satisfy the invariant, the tasks all
  satisfy it again after \<^verbatim>\<open>addTask\<close>; after \<^verbatim>\<open>toggleTaskComplete\<close>, when the clock
  reading is not before the \<^verbatim>\<open>createdAt\<close> of the stored tasks; after \<^verbatim>\<open>updateTask\<close>,
  when the fields given are none of \<^verbatim>\<open>completed\<close>, \<^verbatim>\<open>completedAt\<close> and
  \<^verbatim>\<open>createdAt\<close>; and after \<^verbatim>\<open>importData\<close>, when the tasks of the document satisfy it.
\<close>

theorem invariant_preserved:
  assumes "getTasks s = JArr ts" and "\<forall>t\<in>set ts. task_invariant t"
    and "addTask ms rnd now_iso task s = (ok, s') \<or>
         (toggleTaskComplete now_iso taskId s = (ok, s') \<and>
            (\<forall>t\<in>set ts. \<exists>a. field t ''createdAt'' = Some (JStr a) \<and> a \<le> now_iso)) \<or>
         (updateTask taskId updates s = (ok, s') \<and>
            ''completed'' \<notin> fst ` set updates \<and> ''completedAt'' \<notin> fst ` set updates \<and>
            ''createdAt'' \<notin> fst ` set updates) \<or>
         (importData jsonData s = (ok, s') \<and>
            (\<forall>data. JSON_parse jsonData = Inr data \<longrightarrow>
               (\<exists>ts0. field data ''tasks'' = Some (JArr ts0) \<and> (\<forall>t\<in>set ts0. task_invariant t))))"
  shows "\<exists>ts'. getTasks s' = JArr ts' \<and> (\<forall>t\<in>set ts'. task_invariant t)"
proof -
  have keep: ?thesis if "s' = s"
    using that assms(1,2) by blast
  have replaced: ?thesis
    if "getTasks s' = JArr (ts[i := x])" "task_invariant x" for i x
    using that(1) invariant_list_update[OF assms(2) that(2), of i] by blast
  from assms(3) consider
    (add) "addTask ms rnd now_iso task s = (ok, s')"
    | (toggle) "toggleTaskComplete now_iso taskId s = (ok, s')"
        "\<forall>t\<in>set ts. \<exists>a. field t ''createdAt'' = Some (JStr a) \<and> a \<le> now_iso"
    | (update) "updateTask taskId updates s = (ok, s')"
        "''completed'' \<notin> fst ` set updates" "''completedAt'' \<notin> fst ` set updates"
        "''createdAt'' \<notin> fst ` set updates"
    | (import) "importData jsonData s = (ok, s')"
        "\<forall>data. JSON_parse jsonData = Inr data \<longrightarrow>
           (\<exists>ts0. field data ''tasks'' = Some (JArr ts0) \<and> (\<forall>t\<in>set ts0. task_invariant t))"
    by blast
  then show ?thesis
  proof cases
    case add
    from addTask_result[OF assms(1) add] show ?thesis
    proof
      assume "s' = s"
      then show ?thesis by (rule keep)
    next
      let ?new = "JObj (AList.update ''completedAt'' JNull
            (AList.update ''completed'' (JBool False)
               (AList.update ''createdAt'' (JStr now_iso)
                  (AList.update ''id'' (JStr (task_id ms rnd)) task))))"
      assume g: "getTasks s' = JArr (ts @ [?new])"
      have "task_invariant ?new"
        by (rule new_task_invariant)
      with assms(2) have "\<forall>t\<in>set (ts @ [?new]). task_invariant t"
        by simp
      with g show ?thesis by blast
    qed
  next
    case toggle
    from toggle_result[OF assms(1) toggle(1)] show ?thesis
    proof
      assume "s' = s"
      then show ?thesis by (rule keep)
    next
      assume "\<exists>i kvs. i < length ts \<and> ts ! i = JObj kvs \<and>
           map_of kvs ''id'' = Some (JStr taskId) \<and>
           getTasks s' =
             JArr (ts[i := JObj (AList.update ''completedAt''
                  (if \<not> truthy_opt (map_of kvs ''completed'') then JStr now_iso else JNull)
                  (AList.update ''completed''
                     (JBool (\<not> truthy_opt (map_of kvs ''completed''))) kvs))])"
      then obtain i kvs where i: "i < length ts" "ts ! i = JObj kvs"
        and g: "getTasks s' =
             JArr (ts[i := JObj (AList.update ''completedAt''
                  (if \<not> truthy_opt (map_of kvs ''completed'') then JStr now_iso else JNull)
                  (AList.update ''completed''
                     (JBool (\<not> truthy_opt (map_of kvs ''completed''))) kvs))])"
        by blast
      from i have "JObj kvs \<in> set ts"
        by (metis nth_mem)
      with toggle(2) have "\<exists>a. field (JObj kvs) ''createdAt'' = Some (JStr a) \<and> a \<le> now_iso"
        by (rule bspec)
      then obtain a where "map_of kvs ''createdAt'' = Some (JStr a)" "a \<le> now_iso"
        by auto
      from g toggled_task_invariant[OF this] show ?thesis
        by (rule replaced)
    qed
  next
    case update
    from updateTask_result[OF assms(1) update(1)] show ?thesis
    proof
      assume "s' = s"
      then show ?thesis by (rule keep)
    next
      assume "\<exists>i kvs. i < length ts \<and> ts ! i = JObj kvs \<and>
           map_of kvs ''id'' = Some (JStr taskId) \<and>
           getTasks s' = JArr (ts[i := JObj (js_spread kvs updates)])"
      then obtain i kvs where i: "i < length ts" "ts ! i = JObj kvs"
        and g: "getTasks s' = JArr (ts[i := JObj (js_spread kvs updates)])"
        by blast
      from i have "JObj kvs \<in> set ts"
        by (metis nth_mem)
      with assms(2) have "task_invariant (JObj kvs)"
        by (rule bspec)
      from g updated_task_invariant[OF this update(2,3,4)] show ?thesis
        by (rule replaced)
    qed
  next
    case import
    from importData_tasks[OF import(1)] show ?thesis
    proof
      assume "getTasks s' = getTasks s"
      with assms(1,2) show ?thesis by simp
    next
      assume "\<exists>data tasks. JSON_parse jsonData = Inr data \<and>
          field data ''tasks'' = Some tasks \<and> getTasks s' = written tasks"
      then obtain data tasks where d: "JSON_parse jsonData = Inr data"
        "field data ''tasks'' = Some tasks" "getTasks s' = written tasks"
        by blast
      from import(2) d(1) obtain ts0 where t: "field data ''tasks'' = Some (JArr ts0)"
        "\<forall>t\<in>set ts0. task_invariant t"
        by blast
      from t(2) have "\<forall>t\<in>set (map written ts0). task_invariant t"
        by (simp add: task_invariant_written)
      moreover from t(1) d(2,3) have "getTasks s' = JArr (map written ts0)"
        by simp
      ultimately show ?thesis by blast
    qed
  qed
qed

theorem invariant_preserved_witness:
  "getTasks example_state = JArr [task_a, task_b] \<and>
   task_invariant task_a \<and> task_invariant task_b \<and>
   fst (toggleTaskComplete ''2026-02-01T00:00:00.000Z'' ''task_1_a'' example_state) \<and>
   (\<exists>ts'. getTasks (snd (toggleTaskComplete ''2026-02-01T00:00:00.000Z'' ''task_1_a''
                            example_state)) = JArr ts' \<and>
          (\<forall>t\<in>set ts'. task_invariant t)) \<and>
   fst (updateTask ''task_2_b'' [(''title'', JStr ''C'')] example_state) \<and>
   (\<exists>ts'. getTasks (snd (updateTask ''task_2_b'' [(''title'', JStr ''C'')] example_state)) =
            JArr ts' \<and>
          (\<forall>t\<in>set ts'. task_invariant t))"
proof -
  let ?s1 = "snd (toggleTaskComplete ''2026-02-01T00:00:00.000Z'' ''task_1_a'' example_state)"
  let ?s2 = "snd (updateTask ''task_2_b'' [(''title'', JStr ''C'')] example_state)"
  have g: "getTasks example_state = JArr [task_a, task_b]"
    by (simp add: example_defs)
  have i: "task_invariant task_a" "task_invariant task_b"
    by (simp_all add: task_invariant_def task_a_def task_b_def)
  then have all: "\<forall>t\<in>set [task_a, task_b]. task_invariant t"
    by simp
  have c: "\<forall>t\<in>set [task_a, task_b].
      \<exists>a. field t ''createdAt'' = Some (JStr a) \<and> a \<le> ''2026-02-01T00:00:00.000Z''"
    by (simp add: task_a_def task_b_def)
  have k: "''completed'' \<notin> fst ` set [(''title'', JStr ''C'')]"
    "''completedAt'' \<notin> fst ` set [(''title'', JStr ''C'')]"
    "''createdAt'' \<notin> fst ` set [(''title'', JStr ''C'')]"
    by simp_all
  have p1: "toggleTaskComplete ''2026-02-01T00:00:00.000Z'' ''task_1_a'' example_state = (True, ?s1)"
    by (simp add: toggleTaskComplete_def id_is_def toggle_fields_def example_defs)
  have p2: "updateTask ''task_2_b'' [(''title'', JStr ''C'')] example_state = (True, ?s2)"
    by (simp add: updateTask_def id_is_def js_spread_def example_defs)
  from p1 c have "\<exists>ts'. getTasks ?s1 = JArr ts' \<and> (\<forall>t\<in>set ts'. task_invariant t)"
    by (intro invariant_preserved[OF g all, where now_iso = "''2026-02-01T00:00:00.000Z''"
          and taskId = "''task_1_a''" and ok = True]) blast
  moreover from p2 k have "\<exists>ts'. getTasks ?s2 = JArr ts' \<and> (\<forall>t\<in>set ts'. task_invariant t)"
    by (intro invariant_preserved[OF g all, where taskId = "''task_2_b''"
          and updates = "[(''title'', JStr ''C'')]" and ok = True]) blast
  moreover from p1 have "fst (toggleTaskComplete ''2026-02-01T00:00:00.000Z'' ''task_1_a''
      example_state)"
    by (metis fst_conv)
  moreover from p2 have "fst (updateTask ''task_2_b'' [(''title'', JStr ''C'')] example_state)"
    by (metis fst_conv)
  ultimately show ?thesis
    using g i by blast
qed

section \<open>Export followed by import\<close>





section \<open>The order of the derived view\<close>

text \<open>
  Claim C4. For every list of tasks as the data model has them, and every value of
  \<^verbatim>\<open>sortBy\<close> (with a consistent collation of the locale), \<^verbatim>\<open>sortTasks\<close> returns
  without an exception a rearrangement of the list in which
  no task stands behind a task that the order of the view puts after it: every task that
  is not completed stands before every completed task, and within a completion group the
  tasks stand by ascending due date (\<^verbatim>\<open>date\<close>), by priority high, medium, low
  (\<^verbatim>\<open>priority\<close>) or by the collation of their titles (\<^verbatim>\<open>alphabetical\<close>); the tasks that
  the order does not separate from a given task stand in the order of the input.
\<close>

theorem sortTasks_order:
  assumes "consistent_collation (localeCompare rt)" and "\<forall>t\<in>set tasks. is_task rt t"
  shows "\<exists>sorted. sortTasks rt tasks sortBy = Inr sorted \<and>
           mset sorted = mset tasks \<and>
           sorted_wrt (\<lambda>a b. \<not> must_precede rt sortBy b a) sorted \<and>
           (\<forall>i j. i < j \<and> j < length sorted \<and> completed_of (sorted ! i) \<longrightarrow>
                  completed_of (sorted ! j)) \<and>
           (\<forall>t\<in>set tasks. filter (tie rt sortBy t) sorted = filter (tie rt sortBy t) tasks)"
proof -
  let ?A = "set tasks"
  let ?le = "\<lambda>a b. \<not> must_precede rt sortBy b a"
  have cmp: "\<forall>x\<in>?A. \<forall>y\<in>?A. \<exists>r. compareTasks rt sortBy x y = Inr r \<and>
      (positive r \<longleftrightarrow> \<not> ?le x y)"
    using compareTasks_on_tasks[OF _ _ assms(1)] assms(2) by simp
  have total: "\<forall>x\<in>?A. \<forall>y\<in>?A. ?le x y \<or> ?le y x"
    using must_precede_total[OF assms(1)] by blast
  have trans: "\<forall>x\<in>?A. \<forall>y\<in>?A. \<forall>z\<in>?A. ?le x y \<longrightarrow> ?le y z \<longrightarrow> ?le x z"
    using must_precede_negtrans[OF assms(1)] assms(2) by blast
  from js_sort_correct[of ?A "compareTasks rt sortBy" ?le tasks, OF cmp total trans]
  obtain sorted where s: "js_sort (compareTasks rt sortBy) tasks = Inr sorted"
    "mset sorted = mset tasks" "sorted_wrt ?le sorted"
    "\<forall>t\<in>?A. filter (\<lambda>u. ?le t u \<and> ?le u t) sorted = filter (\<lambda>u. ?le t u \<and> ?le u t) tasks"
    by blast
  have first: "completed_of (sorted ! j)"
    if "i < j" "j < length sorted" "completed_of (sorted ! i)" for i j
  proof -
    from s(3) that(1,2) have "\<not> must_precede rt sortBy (sorted ! j) (sorted ! i)"
      by (simp add: sorted_wrt_iff_nth_less)
    with that(3) show ?thesis
      by (auto simp: must_precede_def)
  qed
  have "(\<lambda>u. ?le t u \<and> ?le u t) = tie rt sortBy t" for t
    by (auto simp: tie_def)
  with s(4) have stable: "\<forall>t\<in>?A. filter (tie rt sortBy t) sorted = filter (tie rt sortBy t) tasks"
    by simp
  from s(1,2,3) first stable show ?thesis
    unfolding sortTasks_def by blast
qed

theorem sortTasks_order_witness:
  "consistent_collation (localeCompare example_runtime) \<and>
   is_task example_runtime task_due_jan \<and> is_task example_runtime task_due_feb \<and>
   completed_of task_due_jan \<and> \<not> completed_of task_due_feb \<and>
   sortTasks example_runtime [task_due_jan, task_due_feb] ''date'' =
     Inr [task_due_feb, task_due_jan] \<and>
   sorted_wrt (\<lambda>a b. \<not> must_precede example_runtime ''date'' b a) [task_due_feb, task_due_jan]"
proof -
  have lc: "consistent_collation (localeCompare example_runtime)"
    by (auto simp: consistent_collation_def example_runtime_def)
  have t: "is_task example_runtime task_due_jan" "is_task example_runtime task_due_feb"
    by (simp_all add: is_task_def example_runtime_def task_due_jan_def task_due_feb_def)
  then have all: "\<forall>t\<in>set [task_due_jan, task_due_feb]. is_task example_runtime t"
    by simp
  have c: "completed_of task_due_jan" "\<not> completed_of task_due_feb"
    by (simp_all add: completed_of_def task_due_jan_def task_due_feb_def)
  have e: "sortTasks example_runtime [task_due_jan, task_due_feb] ''date'' =
      Inr [task_due_feb, task_due_jan]"
    by (simp add: sortTasks_def compareTasks_def strict_neq_def task_due_jan_def task_due_feb_def)
  from sortTasks_order[OF lc all, of "''date''"] e
  have "sorted_wrt (\<lambda>a b. \<not> must_precede example_runtime ''date'' b a)
      [task_due_feb, task_due_jan]"
    by auto
  with lc t c e show ?thesis
    by blast
qed

end
